theory Spec2Isabelle
  imports Main
begin

section \<open>Python values, errors and strings\<close>

text \<open>
  The module \<^verbatim>\<open>_bigquery.py\<close> works on dynamically typed Python 2 values: the parsed
  cell body (dictionaries, lists, strings, numbers), the parsed command line (a dictionary
  from flag name to value) and the objects bound in the notebook (queries, tables, UDF
  function calls). Objects of the warehouse library are opaque here: a class and an
  identity.
\<close>

datatype pyclass = Query | FunctionCall | Table | Schema | SqlModule | OtherClass

datatype pyval =
    PNone
  | PBool bool
  | PInt int
  | PStr string
  | PList "pyval list"
  | PTuple "pyval list"
  | PDict "(string \<times> pyval) list"
  | PObj pyclass nat
  | PUDF "(string \<times> string) list" "(string \<times> string) list" string string

text \<open>
  Every \<^verbatim>\<open>raise\<close> of the module is \<^verbatim>\<open>raise Exception(message)\<close>; the other
  constructors are the errors the Python runtime raises by itself, and \<open>External\<close> is an
  error raised inside a collaborator (the JSON or YAML parser, the warehouse client).
\<close>

datatype error =
    Exception string
  | AttributeError string
  | KeyError string
  | TypeError string
  | ValueError string
  | External string

type_synonym env = "string \<rightharpoonup> pyval"

definition isinstance :: "pyval \<Rightarrow> pyclass \<Rightarrow> bool" where
  "isinstance v c = (case v of PObj c' _ \<Rightarrow> c' = c | _ \<Rightarrow> False)"

text \<open>Python truth value: \<^verbatim>\<open>if v\<close>, \<^verbatim>\<open>not v\<close>.\<close>

fun truthy :: "pyval \<Rightarrow> bool" where
  "truthy PNone = False"
| "truthy (PBool b) = b"
| "truthy (PInt i) = (i \<noteq> 0)"
| "truthy (PStr s) = (s \<noteq> [])"
| "truthy (PList xs) = (xs \<noteq> [])"
| "truthy (PTuple xs) = (xs \<noteq> [])"
| "truthy (PDict kvs) = (kvs \<noteq> [])"
| "truthy (PObj c i) = True"
| "truthy (PUDF ins outs n js) = True"

text \<open>\<^verbatim>\<open>d[k]\<close> on a dictionary: a missing key raises \<^verbatim>\<open>KeyError\<close>.\<close>

definition getitem :: "env \<Rightarrow> string \<Rightarrow> error + pyval" where
  "getitem d k = (case d k of None \<Rightarrow> Inl (KeyError k) | Some v \<Rightarrow> Inr v)"

definition startswith :: "string \<Rightarrow> string \<Rightarrow> bool" where
  "startswith s p = (take (length p) s = p)"

text \<open>
  The cell of a magic is a text (\<^verbatim>\<open>unicode\<close>) string. A character of a \<open>string\<close> here
  is a code point below 256. \<^verbatim>\<open>strip()\<close> on a text string removes the characters
  that are white space for Unicode; below 256 these are tab, LF, VT, FF, CR
  (U+0009 to U+000D), the separators U+001C to U+001F, the space U+0020, the next-line
  control U+0085 and the no-break space U+00A0.
\<close>

definition is_space :: "char \<Rightarrow> bool" where
  "is_space c =
     (c \<in> set [CHR 0x09, CHR 0x0A, CHR 0x0B, CHR 0x0C, CHR 0x0D,
                CHR 0x1C, CHR 0x1D, CHR 0x1E, CHR 0x1F, CHR 0x20, CHR 0x85, CHR 0xA0])"

definition strip :: "string \<Rightarrow> string" where
  "strip s = rev (dropWhile is_space (rev (dropWhile is_space s)))"

text \<open>
  The methods of a Python 2 string. \<^verbatim>\<open>s.m(...)\<close> with \<open>m\<close> outside this list raises
  \<^verbatim>\<open>AttributeError\<close> before any argument is looked at.
\<close>

definition str_methods :: "string list" where
  "str_methods =
    [''capitalize'', ''center'', ''count'', ''decode'', ''encode'', ''endswith'',
     ''expandtabs'', ''find'', ''format'', ''index'', ''isalnum'', ''isalpha'', ''isdigit'',
     ''islower'', ''isspace'', ''istitle'', ''isupper'', ''join'', ''ljust'', ''lower'',
     ''lstrip'', ''partition'', ''replace'', ''rfind'', ''rindex'', ''rjust'', ''rpartition'',
     ''rsplit'', ''rstrip'', ''split'', ''splitlines'', ''startswith'', ''strip'',
     ''swapcase'', ''title'', ''translate'', ''upper'', ''zfill'']"

definition str_has_method :: "string \<Rightarrow> bool" where
  "str_has_method m = (m \<in> set str_methods)"

text \<open>The first error of a list of results, in order, or all the values.\<close>

fun sequence_sum :: "('e + 'a) list \<Rightarrow> 'e + 'a list" where
  "sequence_sum [] = Inr []"
| "sequence_sum (Inl e # rs) = Inl e"
| "sequence_sum (Inr x # rs) =
     (case sequence_sum rs of Inl e \<Rightarrow> Inl e | Inr xs \<Rightarrow> Inr (x # xs))"

section \<open>Parsing the cell body: \<^verbatim>\<open>_parse_config\<close>\<close>

text \<open>
  \<^verbatim>\<open>
  def expand_var(v, env):
    if v.startswith('$'):
      v = v[1:]
      if not v.startwith('$'):
        if v in env:
          v = env[v]
        else:
          raise Exception('Cannot expand variable $%s' % v)
    return v
  \<close>
  The inner test calls the method \<^verbatim>\<open>startwith\<close>, which a string does not have.
\<close>

definition expand_var :: "string \<Rightarrow> env \<Rightarrow> error + pyval" where
  "expand_var v env =
     (if startswith v ''$'' then
        (let v' = drop 1 v in
         if \<not> str_has_method ''startwith'' then Inl (AttributeError ''startwith'')
         else if \<not> startswith v' ''$'' then
           (case env v' of
              Some x \<Rightarrow> Inr x
            | None \<Rightarrow> Inl (Exception (''Cannot expand variable $'' @ v')))
         else Inr (PStr v'))
      else Inr (PStr v))"

text \<open>
  One value \<open>v\<close> held by a dictionary or a list, inside the loops of \<^verbatim>\<open>replace_vars\<close>:
  a container is walked in place (\<open>r\<close> is the result of the recursive call on it), a string
  is expanded and stored back, anything else is left alone.
\<close>

definition replace_in_list :: "pyval \<Rightarrow> error + pyval \<Rightarrow> env \<Rightarrow> error + pyval" where
  "replace_in_list v r env =
     (case v of
        PDict _ \<Rightarrow> r
      | PList _ \<Rightarrow> r
      | PTuple _ \<Rightarrow> r
      | PStr s \<Rightarrow> expand_var s env
      | _ \<Rightarrow> Inr v)"

text \<open>
  The same inside a tuple: \<^verbatim>\<open>config[i] = expand_var(v, env)\<close> evaluates the right-hand
  side and then fails, a tuple having no item assignment.
\<close>

definition replace_in_tuple :: "pyval \<Rightarrow> error + pyval \<Rightarrow> env \<Rightarrow> error + pyval" where
  "replace_in_tuple v r env =
     (case v of
        PDict _ \<Rightarrow> r
      | PList _ \<Rightarrow> r
      | PTuple _ \<Rightarrow> r
      | PStr s \<Rightarrow>
          (case expand_var s env of
             Inl e \<Rightarrow> Inl e
           | Inr _ \<Rightarrow> Inl (TypeError ''tuple item assignment''))
      | _ \<Rightarrow> Inr v)"

text \<open>
  \<^verbatim>\<open>replace_vars(config, env)\<close> mutates \<open>config\<close> in place; the model returns the
  mutated value, or the first error in iteration order. A dictionary is the list of its
  items in iteration order. A value that is neither a dictionary, a list nor a tuple is
  left as it is (also a string at the top).
\<close>

primrec replace_vars :: "pyval \<Rightarrow> env \<Rightarrow> error + pyval" where
  "replace_vars PNone env = Inr PNone"
| "replace_vars (PBool b) env = Inr (PBool b)"
| "replace_vars (PInt i) env = Inr (PInt i)"
| "replace_vars (PStr s) env = Inr (PStr s)"
| "replace_vars (PObj c i) env = Inr (PObj c i)"
| "replace_vars (PUDF ins outs n js) env = Inr (PUDF ins outs n js)"
| "replace_vars (PDict kvs) env =
     map_sum id PDict
       (sequence_sum
          (map (\<lambda>(k, r). map_sum id (Pair k) r)
             (map (map_prod id (\<lambda>v. replace_in_list v (replace_vars v env) env)) kvs)))"
| "replace_vars (PList xs) env =
     map_sum id PList
       (sequence_sum (map (\<lambda>v. replace_in_list v (replace_vars v env) env) xs))"
| "replace_vars (PTuple xs) env =
     map_sum id PTuple
       (sequence_sum (map (\<lambda>v. replace_in_tuple v (replace_vars v env) env) xs))"

text \<open>
  The outcome of an extract or load job, as far as the module reads it: the attributes
  \<^verbatim>\<open>failed\<close>, \<^verbatim>\<open>fatal_error\<close> and \<^verbatim>\<open>errors\<close>.
\<close>

record job =
  failed :: bool
  fatal_error :: pyval
  errors :: pyval

text \<open>
  The collaborators of the module, which are not part of it: the JSON and YAML parsers,
  the lookup of a name in the notebook, the SQL template resolver, the warehouse client
  (queries, tables, jobs), the renderer, and Python's \<^verbatim>\<open>str\<close>. Each call that can
  raise returns a sum. Keyword arguments are passed as a list of names and values.
\<close>

record collaborators =
  json_loads :: "string \<Rightarrow> error + pyval"
  yaml_load :: "string \<Rightarrow> error + pyval"
  py_str :: "pyval \<Rightarrow> string"
  get_item :: "env \<Rightarrow> pyval \<Rightarrow> pyval"
  get_sql_statement_with_environment :: "pyval \<Rightarrow> env \<Rightarrow> error + (pyval \<times> env)"
  new_Query :: "pyval \<Rightarrow> env \<Rightarrow> error + pyval"
  query_sample :: "pyval \<Rightarrow> pyval \<Rightarrow> error + pyval"
  query_execute_dry_run :: "pyval \<Rightarrow> error + pyval"
  new_QueryStats :: "pyval \<Rightarrow> pyval \<Rightarrow> error + pyval"
  query_execute_results :: "pyval \<Rightarrow> pyval \<Rightarrow> (string \<times> pyval) list \<Rightarrow> error + pyval"
  new_Sampling :: "string \<Rightarrow> (string \<times> pyval) list \<Rightarrow> error + pyval"
  new_Table :: "pyval \<Rightarrow> error + pyval"
  table_exists :: "pyval \<Rightarrow> error + bool"
  table_create :: "pyval \<Rightarrow> pyval \<Rightarrow> error + unit"
  table_load :: "pyval \<Rightarrow> pyval \<Rightarrow> (string \<times> pyval) list \<Rightarrow> error + job"
  source_extract :: "pyval \<Rightarrow> pyval \<Rightarrow> (string \<times> pyval) list \<Rightarrow> error + job"
  get_field_list :: "pyval \<Rightarrow> pyval \<Rightarrow> error + pyval"
  get_data :: "pyval \<Rightarrow> pyval \<Rightarrow> int \<Rightarrow> int \<Rightarrow> error + (pyval list \<times> int)"
  render_viewer :: "pyval \<Rightarrow> pyval \<Rightarrow> pyval list \<Rightarrow> string \<Rightarrow> int \<Rightarrow> int \<Rightarrow> error + string"
  new_HTML :: "string \<Rightarrow> pyval"

text \<open>Sequencing: the first error ends the computation, as a raised exception does.\<close>

definition and_then :: "'e + 'a \<Rightarrow> ('a \<Rightarrow> 'e + 'b) \<Rightarrow> 'e + 'b" where
  "and_then m f = (case m of Inl e \<Rightarrow> Inl e | Inr x \<Rightarrow> f x)"

text \<open>
  \<^verbatim>\<open>_parse_config(config, env)\<close>: \<open>None\<close> stays \<open>None\<close>; an empty or blank body is the
  empty dictionary; a body whose first non-blank character is an opening brace goes to
  the JSON parser, any other to the YAML parser; then the variables are replaced.
\<close>

definition parse_config :: "collaborators \<Rightarrow> string option \<Rightarrow> env \<Rightarrow> error + pyval" where
  "parse_config X config env =
     (case config of
        None \<Rightarrow> Inr PNone
      | Some text \<Rightarrow>
          (let stripped = strip text in
           case (if length stripped = 0 then Inr (PDict [])
                 else if hd stripped = CHR ''{'' then json_loads X text
                 else yaml_load X text) of
             Inl e \<Rightarrow> Inl e
           | Inr parsed \<Rightarrow> replace_vars parsed env))"

section \<open>Dispatch: \<^verbatim>\<open>_dispatch_handler\<close>\<close>

text \<open>
  The handler is called either as \<^verbatim>\<open>handler(args)\<close> or as \<^verbatim>\<open>handler(args, cell)\<close>;
  \<open>args\<close> is the dictionary of the parsed command line, \<open>cell\<close> the cell body or \<open>None\<close>.
\<close>

datatype handler_call =
    Call_args env
  | Call_args_cell env "string option"

text \<open>\<^verbatim>\<open>cell and len(cell.strip())\<close> and \<^verbatim>\<open>not cell\<close>.\<close>

definition cell_has_text :: "string option \<Rightarrow> bool" where
  "cell_has_text cell =
     (case cell of None \<Rightarrow> False | Some c \<Rightarrow> c \<noteq> [] \<and> length (strip c) \<noteq> 0)"

definition not_cell :: "string option \<Rightarrow> bool" where
  "not_cell cell = (case cell of None \<Rightarrow> True | Some c \<Rightarrow> c = [])"

text \<open>
  \<^verbatim>\<open>_dispatch_handler(args, cell, parser, handler, cell_required, cell_prohibited)\<close>;
  of the parser only its program name \<open>prog\<close> is used (the help it prints before an error
  is raised is output, not part of the result).
\<close>

definition dispatch_handler ::
  "env \<Rightarrow> string option \<Rightarrow> string \<Rightarrow> (handler_call \<Rightarrow> error + 'r) \<Rightarrow> bool \<Rightarrow> bool \<Rightarrow> error + 'r"
where
  "dispatch_handler args cell prog handler cell_required cell_prohibited =
     (if cell_prohibited then
        (if cell_has_text cell
         then Inl (Exception (''Additional data is not supported with the '' @ prog @ '' command.''))
         else handler (Call_args args))
      else if cell_required \<and> not_cell cell
        then Inl (Exception (''The '' @ prog @ '' command requires additional data''))
      else handler (Call_args_cell args cell))"

text \<open>
  The registrations of \<^verbatim>\<open>_create_bigquery_parser\<close>: for each command the two flags it
  passes to \<^verbatim>\<open>_dispatch_handler\<close>.
\<close>

datatype command =
    Cmd_sample | Cmd_dryrun | Cmd_udf | Cmd_execute | Cmd_pipeline | Cmd_table
  | Cmd_schema | Cmd_datasets | Cmd_tables | Cmd_extract | Cmd_load

fun registered_cell_required :: "command \<Rightarrow> bool" where
  "registered_cell_required Cmd_udf = True"
| "registered_cell_required _ = False"

fun registered_cell_prohibited :: "command \<Rightarrow> bool" where
  "registered_cell_prohibited Cmd_dryrun = True"
| "registered_cell_prohibited Cmd_table = True"
| "registered_cell_prohibited Cmd_schema = True"
| "registered_cell_prohibited Cmd_datasets = True"
| "registered_cell_prohibited Cmd_tables = True"
| "registered_cell_prohibited Cmd_extract = True"
| "registered_cell_prohibited _ = False"

text \<open>The cell mode of the specification that a pair of flags stands for.\<close>

datatype cell_mode = REQUIRED | PROHIBITED | OPTIONAL

definition cell_mode_of :: "bool \<Rightarrow> bool \<Rightarrow> cell_mode" where
  "cell_mode_of cell_required cell_prohibited =
     (if cell_prohibited then PROHIBITED else if cell_required then REQUIRED else OPTIONAL)"

section \<open>The page state of \<^verbatim>\<open>_table_viewer\<close>\<close>

text \<open>
  \<^verbatim>\<open>
  if total_count < 0:
    fetched_count = len(data['rows'])
    if fetched_count < rows_per_page:
      total_count = fetched_count
  chart = 'table' if 0 <= total_count <= rows_per_page else 'paged_table'
  \<close>
  \<open>total_count\<close> is the count that came with the first page of data (negative when the table
  has no length), \<open>rows\<close> the rows fetched. The result is the total and the chart style
  that go into the page.
\<close>

definition page_state :: "int \<Rightarrow> 'a list \<Rightarrow> int \<Rightarrow> int \<times> string" where
  "page_state total_count rows rows_per_page =
     (let total_count' =
            (if total_count < 0 then
               (let fetched_count = int (length rows) in
                if fetched_count < rows_per_page then fetched_count else total_count)
             else total_count);
          chart = (if 0 \<le> total_count' \<and> total_count' \<le> rows_per_page
                   then ''table'' else ''paged_table'')
      in (total_count', chart))"

section \<open>The UDF declaration: \<^verbatim>\<open>_udf_cell\<close>\<close>

text \<open>
  \<^verbatim>\<open>re.findall(r'\{\{([^}]+)\}\}', js)\<close>. A match at the head of \<open>s\<close>: two opening
  braces, the longest run of characters other than a closing brace, which must not be
  empty, and two closing braces. The run is the match's group; with it comes the text
  after the match. A shorter run cannot match, the character after it not being a
  closing brace.
\<close>

definition match_spec :: "string \<Rightarrow> (string \<times> string) option" where
  "match_spec s =
     (if startswith s ''{{'' then
        (let body = drop 2 s;
             captured = takeWhile (\<lambda>c. c \<noteq> CHR ''}'') body;
             rest = dropWhile (\<lambda>c. c \<noteq> CHR ''}'') body
         in if captured \<noteq> [] \<and> startswith rest ''}}''
            then Some (captured, drop 2 rest) else None)
      else None)"

text \<open>The groups of all matches, leftmost first and not overlapping.\<close>

function findall_spec :: "string \<Rightarrow> string list" where
  "findall_spec [] = []"
| "findall_spec (c # cs) =
     (case match_spec (c # cs) of
        Some (captured, rest) \<Rightarrow> captured # findall_spec rest
      | None \<Rightarrow> findall_spec cs)"
  by pat_completeness auto
termination
proof (relation "measure length")
  fix c cs x captured rest
  assume "match_spec (c # cs) = Some x" and "(captured, rest) = x"
  then have "match_spec (c # cs) = Some (captured, rest)" by simp
  then have "rest = drop 2 (dropWhile (\<lambda>c. c \<noteq> CHR ''}'') (drop 2 (c # cs)))"
    by (auto simp: match_spec_def Let_def split: if_splits)
  moreover have "length (dropWhile (\<lambda>c. c \<noteq> CHR ''}'') cs') \<le> length cs'" for cs' :: string
    by (rule length_dropWhile_le)
  ultimately have "length rest \<le> length (drop 2 (c # cs))"
    by (metis diff_le_self le_trans length_drop)
  then show "(rest, c # cs) \<in> measure length" by simp
qed simp_all

text \<open>
  \<^verbatim>\<open>re.findall(r'[a-z_][a-z0-9_]*', s, flags=re.IGNORECASE)\<close>: a letter of either case
  or an underscore, then the longest run of letters, digits and underscores.
\<close>

definition is_ident_start :: "char \<Rightarrow> bool" where
  "is_ident_start c = (c \<in> set ''abcdefghijklmnopqrstuvwxyzABCDEFGHIJKLMNOPQRSTUVWXYZ_'')"

definition is_ident_char :: "char \<Rightarrow> bool" where
  "is_ident_char c = (is_ident_start c \<or> c \<in> set ''0123456789'')"

function findall_ident :: "string \<Rightarrow> string list" where
  "findall_ident [] = []"
| "findall_ident (c # cs) =
     (if is_ident_start c
      then (c # takeWhile is_ident_char cs) # findall_ident (dropWhile is_ident_char cs)
      else findall_ident cs)"
  by pat_completeness auto
termination
  by (relation "measure length") (simp_all add: length_dropWhile_le less_Suc_eq_le)

text \<open>The slice \<^verbatim>\<open>xs[0::2]\<close>; \<^verbatim>\<open>xs[1::2]\<close> is the same slice of \<open>drop 1 xs\<close>.\<close>

fun every_second :: "'a list \<Rightarrow> 'a list" where
  "every_second [] = []"
| "every_second [x] = [x]"
| "every_second (x # y # xs) = x # every_second xs"

definition udf_declaration_message :: string where
  "udf_declaration_message =
     ''Declaration must be of the form %%bigquery udf --module <variable name>''"

definition udf_missing_spec_message :: string where
  "udf_missing_spec_message =
     ''The JavaScript must declare the input row and output emitter parameters ''
     @ ''using valid jsdoc format comments.'' @ [CHR 0x0A]
     @ ''The input row param declaration must be typed as {{field:type, field2:type}} ''
     @ ''and the output emitter param declaration must be typed as ''
     @ ''function({{field:type, field2:type}}.''"

definition udf_invalid_input_message :: string where
  "udf_invalid_input_message =
     ''Invalid input row param declaration. The jsdoc type expression must ''
     @ ''define an object with field and type pairs.''"

definition udf_invalid_output_message :: string where
  "udf_invalid_output_message =
     ''Invalid output emitter param declaration. The jsdoc type expression must ''
     @ ''define a function accepting an an object with field and type pairs.''"

text \<open>
  Lines 441 to 466 of \<^verbatim>\<open>_udf_cell\<close>: the input and output field lists of the
  JavaScript text.
\<close>

definition udf_spec :: "string \<Rightarrow> error + ((string \<times> string) list \<times> (string \<times> string) list)" where
  "udf_spec js =
     (let specs = findall_spec js in
      if length specs < 2 then Inl (Exception udf_missing_spec_message)
      else
        (let input_spec_parts = findall_ident (specs ! 0) in
         if length input_spec_parts mod 2 \<noteq> 0 then Inl (Exception udf_invalid_input_message)
         else
           (let inputs = zip (every_second input_spec_parts)
                             (every_second (drop 1 input_spec_parts));
                output_spec_parts = findall_ident (specs ! 1) in
            if length output_spec_parts mod 2 \<noteq> 0
            then Inl (Exception udf_invalid_output_message)
            else Inr (inputs, zip (every_second output_spec_parts)
                                  (every_second (drop 1 output_spec_parts))))))"

text \<open>
  \<^verbatim>\<open>_udf_cell(args, js)\<close>. The UDF object is stored in the notebook environment \<open>ns\<close>
  under the module name; the result is the environment after the call. The command line
  parser gives \<^verbatim>\<open>--module\<close> a string; the cell \<open>js\<close> is not empty here, the command
  being registered with \<^verbatim>\<open>cell_required\<close>.
\<close>

definition udf_cell :: "env \<Rightarrow> string \<Rightarrow> env \<Rightarrow> error + env" where
  "udf_cell args js ns =
     (case getitem args ''module'' of
        Inl e \<Rightarrow> Inl e
      | Inr variable_name \<Rightarrow>
          if \<not> truthy variable_name then Inl (Exception udf_declaration_message)
          else
            (case udf_spec js of
               Inl e \<Rightarrow> Inl e
             | Inr (inputs, outputs) \<Rightarrow>
                 (case variable_name of
                    PStr n \<Rightarrow> Inr (ns(n \<mapsto> PUDF inputs outputs n js))
                  | _ \<Rightarrow> Inl (TypeError ''module name''))))"

text \<open>
  The pairing in the words of the specification: the tokens taken two at a time, each
  pair a field name and its type.
\<close>

fun consecutive_pairs :: "'a list \<Rightarrow> ('a \<times> 'a) list" where
  "consecutive_pairs (n # t # xs) = (n, t) # consecutive_pairs xs"
| "consecutive_pairs xs = []"

text \<open>
  What the two regular expressions mean, stated on the text itself and not by a scan.
  \<^verbatim>\<open>\{\{([^}]+)\}\}\<close> matches at the head of \<open>t\<close>, with group \<open>g\<close> and the text \<open>rest\<close>
  after the match, when \<open>t\<close> is two opening braces, \<open>g\<close>, two closing braces and \<open>rest\<close>,
  and \<open>g\<close> is a non-empty text without a closing brace.
\<close>

definition bracket_match :: "string \<Rightarrow> string \<Rightarrow> string \<Rightarrow> bool" where
  "bracket_match t g rest = (t = ''{{'' @ g @ ''}}'' @ rest \<and> g \<noteq> [] \<and> CHR ''}'' \<notin> set g)"

text \<open>No match begins at any of the first \<open>n\<close> positions of \<open>s\<close>.\<close>

definition no_bracket_match :: "nat \<Rightarrow> string \<Rightarrow> bool" where
  "no_bracket_match n s = (\<forall>i < n. \<forall>g rest. \<not> bracket_match (drop i s) g rest)"

text \<open>
  The bracket groups of a text, as \<^verbatim>\<open>re.findall\<close> gives them: the group of the
  leftmost match, then the groups of the text after that match.
\<close>

inductive bracket_groups :: "string \<Rightarrow> string list \<Rightarrow> bool" where
  no_group: "no_bracket_match (length s) s \<Longrightarrow> bracket_groups s []"
| next_group:
    "s = pre @ t \<Longrightarrow> no_bracket_match (length pre) s \<Longrightarrow> bracket_match t g rest \<Longrightarrow>
     bracket_groups rest gs \<Longrightarrow> bracket_groups s (g # gs)"

text \<open>
  The identifiers of a text, for \<^verbatim>\<open>[a-z_][a-z0-9_]*\<close> without regard to case: the
  leftmost letter or underscore begins a match, which takes every letter, digit and
  underscore that follows it; then the identifiers of the text after that match.
\<close>

inductive identifiers :: "string \<Rightarrow> string list \<Rightarrow> bool" where
  no_identifier: "\<forall>x \<in> set s. \<not> is_ident_start x \<Longrightarrow> identifiers s []"
| next_identifier:
    "s = pre @ c # w @ rest \<Longrightarrow> \<forall>x \<in> set pre. \<not> is_ident_start x \<Longrightarrow> is_ident_start c \<Longrightarrow>
     \<forall>x \<in> set w. is_ident_char x \<Longrightarrow> rest = [] \<or> \<not> is_ident_char (hd rest) \<Longrightarrow>
     identifiers rest ts \<Longrightarrow> identifiers s ((c # w) # ts)"

section \<open>The query argument and the query commands\<close>

text \<open>
  \<^verbatim>\<open>env.update(config)\<close>, followed in the source by \<^verbatim>\<open>Query(item, **env)\<close>.
  A dictionary is merged item by item. Any other iterable is taken as a sequence of
  elements, each of which must itself be a sequence of exactly two items, the key and
  the value: a list or tuple of two values, a string of two characters, or a dictionary
  of two keys (which iterates over its keys). An element that has another length raises
  \<^verbatim>\<open>ValueError\<close>, one that is not iterable \<^verbatim>\<open>TypeError\<close>, and so does a key that
  cannot be hashed (a list or a dictionary). A value that is not iterable at all raises
  \<^verbatim>\<open>TypeError\<close>; objects of the warehouse library are taken as not iterable.
\<close>

fun update_element :: "pyval \<Rightarrow> error + (pyval \<times> pyval)" where
  "update_element (PList [k, v]) = Inr (k, v)"
| "update_element (PTuple [k, v]) = Inr (k, v)"
| "update_element (PStr [a, b]) = Inr (PStr [a], PStr [b])"
| "update_element (PDict [(k1, v1), (k2, v2)]) = Inr (PStr k1, PStr k2)"
| "update_element (PList xs) = Inl (ValueError ''dictionary update sequence element'')"
| "update_element (PTuple xs) = Inl (ValueError ''dictionary update sequence element'')"
| "update_element (PStr s) = Inl (ValueError ''dictionary update sequence element'')"
| "update_element (PDict kvs) = Inl (ValueError ''dictionary update sequence element'')"
| "update_element v = Inl (TypeError ''cannot convert dictionary update sequence element'')"

primrec hashable :: "pyval \<Rightarrow> bool" where
  "hashable PNone = True"
| "hashable (PBool b) = True"
| "hashable (PInt i) = True"
| "hashable (PStr s) = True"
| "hashable (PObj c i) = True"
| "hashable (PUDF ins outs n js) = True"
| "hashable (PDict kvs) = False"
| "hashable (PList xs) = False"
| "hashable (PTuple xs) = list_all id (map hashable xs)"

text \<open>
  The elements are stored one after the other, up to the first that raises. The
  environment of the model has strings as keys; a key of another kind is stored by
  Python too, and the call \<^verbatim>\<open>Query(item, **env)\<close> that follows the update then
  raises \<^verbatim>\<open>TypeError\<close> (keywords must be strings): \<open>other_key\<close> records that such a
  key was stored.
\<close>

fun update_sequence :: "env \<Rightarrow> bool \<Rightarrow> pyval list \<Rightarrow> error + env" where
  "update_sequence env other_key [] =
     (if other_key then Inl (TypeError ''keywords must be strings'') else Inr env)"
| "update_sequence env other_key (x # xs) =
     (case update_element x of
        Inl e \<Rightarrow> Inl e
      | Inr (k, v) \<Rightarrow>
          if \<not> hashable k then Inl (TypeError ''unhashable type'')
          else (case k of
                  PStr key \<Rightarrow> update_sequence (env(key \<mapsto> v)) other_key xs
                | _ \<Rightarrow> update_sequence env True xs))"

definition dict_update :: "env \<Rightarrow> pyval \<Rightarrow> error + env" where
  "dict_update env config =
     (case config of
        PDict kvs \<Rightarrow> Inr (fold (\<lambda>(k, v) m. m(k \<mapsto> v)) kvs env)
      | PList xs \<Rightarrow> update_sequence env False xs
      | PTuple xs \<Rightarrow> update_sequence env False xs
      | PStr s \<Rightarrow> update_sequence env False (map (\<lambda>c. PStr [c]) s)
      | _ \<Rightarrow> Inl (TypeError ''object is not iterable''))"

text \<open>
  \<^verbatim>\<open>_get_query_argument(args, config, env)\<close>. The name is looked up in the notebook
  environment \<open>ns\<close> (\<^verbatim>\<open>_get_notebook_item\<close>), which need not be \<open>env\<close>.
\<close>

definition get_query_argument ::
  "collaborators \<Rightarrow> env \<Rightarrow> env \<Rightarrow> pyval \<Rightarrow> env \<Rightarrow> error + pyval"
where
  "get_query_argument X ns args config env =
     and_then (getitem args ''sql'') (\<lambda>sql_arg.
       let item = get_item X ns sql_arg in
       if isinstance item Query then Inr item
       else
         and_then (get_sql_statement_with_environment X item env) (\<lambda>(item', env').
         and_then (if truthy config then dict_update env' config else Inr env') (\<lambda>env''.
           new_Query X item' env'')))"

text \<open>
  The sampling of \<^verbatim>\<open>_sample_cell\<close>, by method; the arguments are read in the order in
  which Python evaluates them.
\<close>

definition sample_sampling :: "collaborators \<Rightarrow> env \<Rightarrow> pyval \<Rightarrow> pyval \<Rightarrow> error + pyval" where
  "sample_sampling X args method count =
     (if method = PStr ''random'' then
        and_then (getitem args ''percent'') (\<lambda>percent.
          new_Sampling X ''random'' [(''percent'', percent), (''count'', count)])
      else if method = PStr ''hashed'' then
        and_then (getitem args ''field'') (\<lambda>field.
        and_then (getitem args ''percent'') (\<lambda>percent.
          new_Sampling X ''hashed''
            [(''field_name'', field), (''percent'', percent), (''count'', count)]))
      else if method = PStr ''sorted'' then
        and_then (getitem args ''order'') (\<lambda>order.
        and_then (getitem args ''field'') (\<lambda>field.
          new_Sampling X ''sorted''
            [(''field_name'', field), (''ascending'', PBool (order = PStr ''ascending'')),
             (''count'', count)]))
      else if method = PStr ''limit'' then new_Sampling X ''default'' [(''count'', count)]
      else new_Sampling X ''default'' [(''count'', count)])"

text \<open>\<^verbatim>\<open>_sample_cell(args, config)\<close> in the notebook environment \<open>ns\<close>.\<close>

definition sample_cell :: "collaborators \<Rightarrow> env \<Rightarrow> env \<Rightarrow> string option \<Rightarrow> error + pyval" where
  "sample_cell X ns args config =
     (let env = ns in
      and_then (parse_config X config env) (\<lambda>config'.
      and_then (get_query_argument X ns args config' env) (\<lambda>query.
      and_then (getitem args ''count'') (\<lambda>count.
      and_then (getitem args ''method'') (\<lambda>method.
      and_then (sample_sampling X args method count) (\<lambda>sampling.
        query_sample X query sampling))))))"

text \<open>\<^verbatim>\<open>result[key]\<close> on a value that should be a dictionary.\<close>

definition py_getitem :: "pyval \<Rightarrow> string \<Rightarrow> error + pyval" where
  "py_getitem d k =
     (case d of
        PDict kvs \<Rightarrow> (case map_of kvs k of None \<Rightarrow> Inl (KeyError k) | Some v \<Rightarrow> Inr v)
      | _ \<Rightarrow> Inl (TypeError ''getitem''))"

definition dry_run_stats :: "collaborators \<Rightarrow> pyval \<Rightarrow> error + pyval" where
  "dry_run_stats X query =
     and_then (query_execute_dry_run X query) (\<lambda>result.
     and_then (py_getitem result ''totalBytesProcessed'') (\<lambda>total_bytes.
     and_then (py_getitem result ''cacheHit'') (\<lambda>is_cached.
       new_QueryStats X total_bytes is_cached)))"

text \<open>
  \<^verbatim>\<open>query.execute(args['target'], table_mode=args['mode'], use_cache=not args['nocache'],
  allow_large_results=args['large']).results\<close>
\<close>

definition execute_results :: "collaborators \<Rightarrow> env \<Rightarrow> pyval \<Rightarrow> error + pyval" where
  "execute_results X args query =
     and_then (getitem args ''target'') (\<lambda>target.
     and_then (getitem args ''mode'') (\<lambda>mode.
     and_then (getitem args ''nocache'') (\<lambda>nocache.
     and_then (getitem args ''large'') (\<lambda>large.
       query_execute_results X query target
         [(''table_mode'', mode), (''use_cache'', PBool (\<not> truthy nocache)),
          (''allow_large_results'', large)]))))"

definition dryrun_cell :: "collaborators \<Rightarrow> env \<Rightarrow> env \<Rightarrow> string option \<Rightarrow> error + pyval" where
  "dryrun_cell X ns args config =
     (let env = ns in
      and_then (parse_config X config env) (\<lambda>config'.
      and_then (get_query_argument X ns args config' env) (\<lambda>query.
        dry_run_stats X query)))"

definition execute_cell :: "collaborators \<Rightarrow> env \<Rightarrow> env \<Rightarrow> string option \<Rightarrow> error + pyval" where
  "execute_cell X ns args config =
     (let env = ns in
      and_then (parse_config X config env) (\<lambda>config'.
      and_then (get_query_argument X ns args config' env) (\<lambda>query.
        execute_results X args query)))"

text \<open>
  The environment that \<^verbatim>\<open>_pipeline_cell\<close> builds: the bindings of the notebook whose
  value is a UDF function call.
  \<^verbatim>\<open>
  env = {}
  for key, value in _notebook_environment().iteritems():
    if isinstance(value, gcp.bigquery._udf.FunctionCall):
      env[key] = value
  \<close>
\<close>

definition function_calls :: "env \<Rightarrow> env" where
  "function_calls ns =
     (\<lambda>key. case ns key of
               None \<Rightarrow> None
             | Some v \<Rightarrow> if isinstance v FunctionCall then Some v else None)"

text \<open>\<^verbatim>\<open>_pipeline_cell(args, config)\<close>; the SQL it prints before a dry run is output.\<close>

definition pipeline_cell :: "collaborators \<Rightarrow> env \<Rightarrow> env \<Rightarrow> string option \<Rightarrow> error + pyval" where
  "pipeline_cell X ns args config =
     and_then (getitem args ''action'') (\<lambda>action.
       if action = PStr ''deploy'' then Inr (PStr ''Deploying a pipeline is not yet supported'')
       else
         (let env = function_calls ns in
          and_then (parse_config X config env) (\<lambda>config'.
          and_then (get_query_argument X ns args config' env) (\<lambda>query.
            if action = PStr ''dryrun'' then dry_run_stats X query
            else if action = PStr ''run'' then execute_results X args query
            else Inr PNone))))"

section \<open>Tables: the cache, \<^verbatim>\<open>_get_table\<close>, \<^verbatim>\<open>_table_line\<close>\<close>

text \<open>
  Modelled from the spec: the class \<^verbatim>\<open>gcp._util.LRUCache\<close>, of which the module holds
  the instance \<^verbatim>\<open>_table_cache = gcp._util.LRUCache(10)\<close>, is not under src/. The
  specification: a cache of fixed capacity from name to handle; \<open>get\<close> returns the handle
  or a miss; \<open>put\<close> inserts or refreshes an entry and, when the number of names would
  exceed the capacity, evicts the least recently touched entry first; every \<open>get\<close> and
  \<open>put\<close> updates the recency of its name.

  The entries are kept in the order of their last touch, the most recent first, so that
  the least recently touched entry is the last.
\<close>

record ('k, 'v) lru_cache =
  capacity :: nat
  entries :: "('k \<times> 'v) list"

definition new_LRUCache :: "nat \<Rightarrow> ('k, 'v) lru_cache" where
  "new_LRUCache n = \<lparr>capacity = n, entries = []\<rparr>"

definition lru_touch :: "'k \<Rightarrow> 'v \<Rightarrow> ('k \<times> 'v) list \<Rightarrow> ('k \<times> 'v) list" where
  "lru_touch name handle es = (name, handle) # filter (\<lambda>e. fst e \<noteq> name) es"

definition lru_get :: "('k, 'v) lru_cache \<Rightarrow> 'k \<Rightarrow> 'v option \<times> ('k, 'v) lru_cache" where
  "lru_get c name =
     (case map_of (entries c) name of
        None \<Rightarrow> (None, c)
      | Some handle \<Rightarrow> (Some handle, c\<lparr>entries := lru_touch name handle (entries c)\<rparr>))"

definition lru_put :: "('k, 'v) lru_cache \<Rightarrow> 'k \<Rightarrow> 'v \<Rightarrow> ('k, 'v) lru_cache" where
  "lru_put c name handle =
     (if name \<in> fst ` set (entries c)
      then c\<lparr>entries := lru_touch name handle (entries c)\<rparr>
      else c\<lparr>entries := (name, handle) #
                (if length (entries c) < capacity c then entries c else butlast (entries c))\<rparr>)"

text \<open>The cache of the module.\<close>

definition table_cache_init :: "(pyval, pyval) lru_cache" where
  "table_cache_init = new_LRUCache 10"

text \<open>A sequence of operations on a cache, for stating what holds after any of them.\<close>

datatype ('k, 'v) cache_op = Get 'k | Put 'k 'v

fun cache_step :: "('k, 'v) lru_cache \<Rightarrow> ('k, 'v) cache_op \<Rightarrow> ('k, 'v) lru_cache" where
  "cache_step c (Get name) = snd (lru_get c name)"
| "cache_step c (Put name handle) = lru_put c name handle"

definition cache_run :: "('k, 'v) cache_op list \<Rightarrow> ('k, 'v) lru_cache \<Rightarrow> ('k, 'v) lru_cache" where
  "cache_run ops c = foldl cache_step c ops"

definition cache_names :: "('k, 'v) lru_cache \<Rightarrow> 'k list" where
  "cache_names c = map fst (entries c)"

text \<open>
  The names that a sequence of operations touches, in the order of the touches, the
  oldest first: a \<open>put\<close> touches its name, and a \<open>get\<close> touches its name when it returns
  a handle (a miss has no entry to touch).
\<close>

fun touch_history :: "('k, 'v) lru_cache \<Rightarrow> ('k, 'v) cache_op list \<Rightarrow> 'k list" where
  "touch_history c [] = []"
| "touch_history c (Get name # ops) =
     (if fst (lru_get c name) = None then [] else [name])
     @ touch_history (cache_step c (Get name)) ops"
| "touch_history c (Put name handle # ops) =
     name # touch_history (cache_step c (Put name handle)) ops"

text \<open>
  In the history \<open>h\<close> of touches, \<open>y\<close> was touched after the last touch of \<open>x\<close>.
\<close>

definition touched_since :: "'k list \<Rightarrow> 'k \<Rightarrow> 'k \<Rightarrow> bool" where
  "touched_since h x y = (\<exists>h1 h2. h = h1 @ x # h2 \<and> x \<notin> set h2 \<and> y \<in> set h2)"

text \<open>
  \<^verbatim>\<open>_get_table(name)\<close>: the result and the cache after the call. A table bound in the
  notebook is returned as it is; otherwise \<^verbatim>\<open>_table_cache[name]\<close> is a \<open>get\<close>, whose
  miss is the \<^verbatim>\<open>KeyError\<close> of the source, and \<^verbatim>\<open>_table_cache[name] = table\<close> a \<open>put\<close>.
\<close>

definition get_table ::
  "collaborators \<Rightarrow> env \<Rightarrow> (pyval, pyval) lru_cache \<Rightarrow> pyval
     \<Rightarrow> (error + pyval) \<times> (pyval, pyval) lru_cache"
where
  "get_table X ns cache name =
     (let item = get_item X ns name in
      if isinstance item Table then (Inr item, cache)
      else
        (case lru_get cache name of
           (Some table, cache') \<Rightarrow> (Inr table, cache')
         | (None, cache') \<Rightarrow>
             (case new_Table X name of
                Inl e \<Rightarrow> (Inl e, cache')
              | Inr table \<Rightarrow>
                  (case table_exists X table of
                     Inl e \<Rightarrow> (Inl e, cache')
                   | Inr True \<Rightarrow> (Inr table, lru_put cache' name table)
                   | Inr False \<Rightarrow> (Inr PNone, cache')))))"

text \<open>\<^verbatim>\<open>s.split(',')\<close>\<close>

fun split_on :: "char \<Rightarrow> string \<Rightarrow> string list" where
  "split_on sep [] = [[]]"
| "split_on sep (c # cs) =
     (if c = sep then [] # split_on sep cs
      else (case split_on sep cs of
              [] \<Rightarrow> [[c]]
            | w # ws \<Rightarrow> (c # w) # ws))"

text \<open>
  \<^verbatim>\<open>_table_viewer(table, rows_per_page, fields)\<close> (\<open>field_list\<close> is \<open>fields\<close>): the data of the first page is
  fetched, the page state computed and the page rendered from them (the text of the page
  is the renderer's).
\<close>

definition table_viewer :: "collaborators \<Rightarrow> pyval \<Rightarrow> int \<Rightarrow> pyval \<Rightarrow> error + string" where
  "table_viewer X table rows_per_page field_list =
     and_then (table_exists X table) (\<lambda>ex.
       if \<not> ex then Inr (py_str X table @ '' does not exist'')
       else
         and_then (if field_list = PNone then get_field_list X field_list table else Inr field_list)
           (\<lambda>field_list'.
         and_then (get_data X table field_list' 0 rows_per_page) (\<lambda>(rows, total_count).
           (case page_state total_count rows rows_per_page of
              (total_count', chart) \<Rightarrow>
                render_viewer X table field_list' rows chart total_count' rows_per_page))))"

text \<open>
  \<^verbatim>\<open>_table_line(args)\<close>. The command line parser gives \<^verbatim>\<open>--rows\<close> an integer
  (\<^verbatim>\<open>type=int\<close>) and \<^verbatim>\<open>--cols\<close> a string or \<open>None\<close>.
\<close>

definition table_line ::
  "collaborators \<Rightarrow> env \<Rightarrow> (pyval, pyval) lru_cache \<Rightarrow> env
     \<Rightarrow> (error + pyval) \<times> (pyval, pyval) lru_cache"
where
  "table_line X ns cache args =
     (case getitem args ''table'' of
        Inl e \<Rightarrow> (Inl e, cache)
      | Inr name \<Rightarrow>
          (case get_table X ns cache name of
             (Inl e, cache') \<Rightarrow> (Inl e, cache')
           | (Inr table, cache') \<Rightarrow>
               (and_then (if truthy table then table_exists X table else Inr False) (\<lambda>ok.
                  if ok then
                    and_then (getitem args ''cols'') (\<lambda>cols.
                    and_then (if truthy cols
                              then (case cols of
                                      PStr s \<Rightarrow> Inr (PList (map PStr (split_on CHR '','' s)))
                                    | _ \<Rightarrow> Inl (AttributeError ''split''))
                              else Inr PNone) (\<lambda>field_list.
                    and_then (getitem args ''rows'') (\<lambda>rows.
                    and_then (case rows of
                                PInt n \<Rightarrow> table_viewer X table n field_list
                              | _ \<Rightarrow> Inl (TypeError ''rows_per_page'')) (\<lambda>html.
                      Inr (new_HTML X html)))))
                  else Inr (PStr (py_str X name @ '' does not exist''))),
                cache')))"

text \<open>
  The destinations that the flag schema of a command declares;
  \<^verbatim>\<open>_create_table_subparser\<close> declares \<^verbatim>\<open>--rows\<close> and \<^verbatim>\<open>--cols\<close>. The parsed
  arguments of a command bind these names, and possibly \<^verbatim>\<open>func\<close>, which
  \<^verbatim>\<open>set_defaults\<close> adds.
\<close>

definition table_schema_dests :: "string list" where
  "table_schema_dests = [''rows'', ''cols'']"

definition parsed_by :: "string list \<Rightarrow> env \<Rightarrow> bool" where
  "parsed_by dests args = (dom args \<subseteq> set dests \<union> {''func''})"

section \<open>Extract and load\<close>

text \<open>
  The last lines of \<^verbatim>\<open>_extract_line\<close> and of \<^verbatim>\<open>_load_cell\<close>:
  \<^verbatim>\<open>
  if job.failed:
    return 'Extract failed: %s' % str(job.fatal_error)
  elif job.errors:
    return 'Extract completed with errors: %s' % str(job.errors)
  \<close>
  and the same with \<open>Load\<close>; a function that ends without \<^verbatim>\<open>return\<close> returns \<open>None\<close>.
\<close>

definition job_outcome :: "collaborators \<Rightarrow> string \<Rightarrow> job \<Rightarrow> pyval" where
  "job_outcome X what job =
     (if failed job then PStr (what @ '' failed: '' @ py_str X (fatal_error job))
      else if truthy (errors job)
        then PStr (what @ '' completed with errors: '' @ py_str X (errors job))
      else PNone)"





section \<open>Stating the properties\<close>

text \<open>
  A result that hands data back to the caller, as opposed to \<open>None\<close> or a message.
\<close>

definition carries_data :: "pyval \<Rightarrow> bool" where
  "carries_data r = (case r of PNone \<Rightarrow> False | PStr _ \<Rightarrow> False | _ \<Rightarrow> True)"

text \<open>
  The invariant of the cache: no more entries than its capacity, and no name twice.
\<close>

definition cache_inv :: "('k, 'v) lru_cache \<Rightarrow> bool" where
  "cache_inv c = (length (entries c) \<le> capacity c \<and> distinct (cache_names c))"

text \<open>
  Modelled from the spec: \<^verbatim>\<open>gcp._util.get_item\<close> is not under src/. The specification
  has the name looked up in the environment: the value bound to it, \<open>None\<close> when there is
  none.
\<close>

definition lookup_item :: "env \<Rightarrow> pyval \<Rightarrow> pyval" where
  "lookup_item ns name =
     (case name of
        PStr n \<Rightarrow> (case ns n of None \<Rightarrow> PNone | Some v \<Rightarrow> v)
      | _ \<Rightarrow> PNone)"

text \<open>
  Collaborators for evaluating the handlers on concrete inputs: the YAML parser returns
  the tree of the body \<open>a: $x\<close> and the JSON parser the tree of \<open>{"n": 1}\<close>, whatever
  the text; no table exists in the warehouse; every job ends with one error and without
  failing.
\<close>

definition example_job :: job where
  "example_job = \<lparr>failed = False, fatal_error = PNone, errors = PList [PStr ''bad row'']\<rparr>"

definition example_collaborators :: collaborators where
  "example_collaborators =
     \<lparr>json_loads = (\<lambda>text. Inr (PDict [(''n'', PInt 1)])),
      yaml_load = (\<lambda>text. Inr (PDict [(''a'', PStr ''$x'')])),
      py_str = (\<lambda>v. case v of PStr s \<Rightarrow> s | _ \<Rightarrow> ''<object>''),
      get_item = lookup_item,
      get_sql_statement_with_environment = (\<lambda>item env. Inr (item, env)),
      new_Query = (\<lambda>item env. Inr (PObj Query 0)),
      query_sample = (\<lambda>query sampling. Inr (PTuple [query, sampling])),
      query_execute_dry_run = (\<lambda>query. Inr (PDict [])),
      new_QueryStats = (\<lambda>total_bytes is_cached. Inr (PTuple [total_bytes, is_cached])),
      query_execute_results = (\<lambda>query target kwargs. Inr (PTuple [query, target])),
      new_Sampling = (\<lambda>method kwargs. Inr (PDict ((''method'', PStr method) # kwargs))),
      new_Table = (\<lambda>name. Inr (PObj Table 1)),
      table_exists = (\<lambda>table. Inr False),
      table_create = (\<lambda>table schema. Inr ()),
      table_load = (\<lambda>table source kwargs. Inr example_job),
      source_extract = (\<lambda>source destination kwargs. Inr example_job),
      get_field_list = (\<lambda>field_list schema. Inr (PList [])),
      get_data = (\<lambda>table field_list first count. Inr ([], - 1)),
      render_viewer = (\<lambda>table field_list rows chart total_count rows_per_page. Inr chart),
      new_HTML = PStr\<rparr>"

text \<open>
  The value tree of the specification: scalars, sequences (lists, which substitution can
  assign into) and mappings. A tuple is not part of it.
\<close>

primrec config_node :: "pyval \<Rightarrow> bool" where
  "config_node PNone = True"
| "config_node (PBool b) = True"
| "config_node (PInt i) = True"
| "config_node (PStr s) = True"
| "config_node (PObj c i) = True"
| "config_node (PUDF ins outs n js) = True"
| "config_node (PDict kvs) = list_all snd (map (map_prod id config_node) kvs)"
| "config_node (PList xs) = list_all id (map config_node xs)"
| "config_node (PTuple xs) = False"

text \<open>No string anywhere in the tree starts with a dollar sign.\<close>

primrec no_var_refs :: "pyval \<Rightarrow> bool" where
  "no_var_refs PNone = True"
| "no_var_refs (PBool b) = True"
| "no_var_refs (PInt i) = True"
| "no_var_refs (PStr s) = (\<not> startswith s ''$'')"
| "no_var_refs (PObj c i) = True"
| "no_var_refs (PUDF ins outs n js) = True"
| "no_var_refs (PDict kvs) = list_all snd (map (map_prod id no_var_refs) kvs)"
| "no_var_refs (PList xs) = list_all id (map no_var_refs xs)"
| "no_var_refs (PTuple xs) = list_all id (map no_var_refs xs)"

section \<open>Properties\<close>

subsection \<open>Substitution\<close>

lemma sequence_sum_all_Inr:
  "(\<And>x. x \<in> set xs \<Longrightarrow> f x = Inr (g x)) \<Longrightarrow> sequence_sum (map f xs) = Inr (map g xs)"
  by (induction xs) auto

lemma expand_var_dollar:
  "startswith v ''$'' \<Longrightarrow> expand_var v env = Inl (AttributeError ''startwith'')"
  by (simp add: expand_var_def str_has_method_def str_methods_def)

lemma expand_var_plain:
  "\<not> startswith v ''$'' \<Longrightarrow> expand_var v env = Inr (PStr v)"
  by (simp add: expand_var_def)

lemma replace_in_list_same:
  assumes "no_var_refs v" and "r = Inr v"
  shows "replace_in_list v r env = Inr v"
  using assms by (cases v) (simp_all add: replace_in_list_def expand_var_plain)

lemma replace_vars_unchanged:
  "config_node c \<Longrightarrow> no_var_refs c \<Longrightarrow> replace_vars c env = Inr c"
proof (induction c)
  case (PDict kvs)
  have "sequence_sum (map ((\<lambda>(k, r). map_sum id (Pair k) r) \<circ>
          map_prod id (\<lambda>v. replace_in_list v (replace_vars v env) env)) kvs)
        = Inr (map (\<lambda>kv. kv) kvs)"
  proof (rule sequence_sum_all_Inr)
    fix kv assume kv: "kv \<in> set kvs"
    obtain k v where [simp]: "kv = (k, v)" by (cases kv)
    from kv PDict.prems have "config_node v" and nv: "no_var_refs v"
      by (auto simp: list_all_iff)
    with PDict.IH kv have "replace_vars v env = Inr v" by fastforce
    with nv have "replace_in_list v (replace_vars v env) env = Inr v"
      by (simp add: replace_in_list_same)
    then show "((\<lambda>(k, r). map_sum id (Pair k) r) \<circ>
          map_prod id (\<lambda>v. replace_in_list v (replace_vars v env) env)) kv = Inr kv"
      by simp
  qed
  then show ?case by simp
next
  case (PList xs)
  have "sequence_sum (map (\<lambda>v. replace_in_list v (replace_vars v env) env) xs)
        = Inr (map (\<lambda>v. v) xs)"
  proof (rule sequence_sum_all_Inr)
    fix v assume v: "v \<in> set xs"
    with PList.prems have "config_node v" and nv: "no_var_refs v"
      by (auto simp: list_all_iff)
    with PList.IH v have "replace_vars v env = Inr v" by blast
    with nv show "replace_in_list v (replace_vars v env) env = Inr v"
      by (simp add: replace_in_list_same)
  qed
  then show ?case by simp
qed simp_all

text \<open>
  C8. A configuration tree (scalars, lists, dictionaries) in which no string starts with
  a dollar sign is returned unchanged by \<^verbatim>\<open>replace_vars\<close>, in every environment; so
  substituting a second time gives what substituting once gave.
\<close>

theorem replace_vars_idempotent:
  assumes "config_node c" and "no_var_refs c"
  shows "replace_vars c env = Inr c
       \<and> (case replace_vars c env of Inl e \<Rightarrow> Inl e | Inr c' \<Rightarrow> replace_vars c' env)
           = replace_vars c env"
  using assms by (simp add: replace_vars_unchanged)

theorem replace_vars_idempotent_witness:
  "config_node (PDict [(''a'', PList [PStr ''x'', PInt 3]), (''b'', PDict [(''c'', PStr ''a$b'')])])
   \<and> no_var_refs (PDict [(''a'', PList [PStr ''x'', PInt 3]), (''b'', PDict [(''c'', PStr ''a$b'')])])
   \<and> replace_vars (PDict [(''a'', PList [PStr ''x'', PInt 3]), (''b'', PDict [(''c'', PStr ''a$b'')])])
        [''x'' \<mapsto> PInt 5]
     = Inr (PDict [(''a'', PList [PStr ''x'', PInt 3]), (''b'', PDict [(''c'', PStr ''a$b'')])])"
  using replace_vars_idempotent
    [of "PDict [(''a'', PList [PStr ''x'', PInt 3]), (''b'', PDict [(''c'', PStr ''a$b'')])]"
        "[''x'' \<mapsto> PInt 5]"]
  by (simp add: startswith_def)

text \<open>
  C1. On the dictionary \<open>{"a": "$x"}\<close> the substitution raises \<^verbatim>\<open>AttributeError\<close>,
  whether \<open>x\<close> is bound (to 5) or not: the value 5 is not substituted, and the error of an
  unbound name is not the one that names the variable.
\<close>

theorem replace_vars_dollar_raises_AttributeError:
  "replace_vars (PDict [(''a'', PStr ''$x'')]) [''x'' \<mapsto> PInt 5]
     = Inl (AttributeError ''startwith'')
   \<and> replace_vars (PDict [(''a'', PStr ''$x'')]) Map.empty
     = Inl (AttributeError ''startwith'')"
  by (simp add: replace_in_list_def expand_var_def startswith_def
      str_has_method_def str_methods_def)

subsection \<open>Dispatch\<close>

lemma strip_Nil: "strip [] = []"
  by (simp add: strip_def)

lemma cell_has_text_iff: "cell_has_text cell \<longleftrightarrow> (\<exists>c. cell = Some c \<and> strip c \<noteq> [])"
  by (cases cell) (auto simp: cell_has_text_def strip_Nil)

text \<open>
  C3. With the cell prohibited, a body that is not empty after stripping raises the
  "Additional data is not supported" exception; with the cell required (and not
  prohibited), a missing or empty body raises the "requires additional data" exception;
  in every other case the result is the handler's, called with \<open>args\<close> alone when the cell
  is prohibited and with \<open>args\<close> and the cell otherwise.
\<close>

theorem dispatch_handler_cell_rules:
  fixes handler :: "handler_call \<Rightarrow> error + 'r"
  defines "mode \<equiv> cell_mode_of"
  shows "(mode req proh = PROHIBITED \<and> (\<exists>c. cell = Some c \<and> strip c \<noteq> []) \<longrightarrow>
            dispatch_handler args cell prog handler req proh
              = Inl (Exception (''Additional data is not supported with the '' @ prog @ '' command.'')))
       \<and> (mode req proh = REQUIRED \<and> (cell = None \<or> cell = Some []) \<longrightarrow>
            dispatch_handler args cell prog handler req proh
              = Inl (Exception (''The '' @ prog @ '' command requires additional data'')))
       \<and> (mode req proh = PROHIBITED \<and> \<not> (\<exists>c. cell = Some c \<and> strip c \<noteq> []) \<longrightarrow>
            dispatch_handler args cell prog handler req proh = handler (Call_args args))
       \<and> (mode req proh = REQUIRED \<and> \<not> (cell = None \<or> cell = Some []) \<longrightarrow>
            dispatch_handler args cell prog handler req proh = handler (Call_args_cell args cell))
       \<and> (mode req proh = OPTIONAL \<longrightarrow>
            dispatch_handler args cell prog handler req proh = handler (Call_args_cell args cell))"
  unfolding mode_def
  by (cases cell)
     (auto simp: dispatch_handler_def cell_mode_of_def cell_has_text_iff not_cell_def
           split: if_splits)

theorem dispatch_handler_cell_rules_witness:
  "dispatch_handler Map.empty (Some '' x '') ''table'' (\<lambda>c. Inr c)
     (registered_cell_required Cmd_table) (registered_cell_prohibited Cmd_table)
     = Inl (Exception ''Additional data is not supported with the table command.'')
   \<and> dispatch_handler Map.empty None ''udf'' (\<lambda>c. Inr c)
     (registered_cell_required Cmd_udf) (registered_cell_prohibited Cmd_udf)
     = Inl (Exception ''The udf command requires additional data'')
   \<and> dispatch_handler Map.empty (Some [CHR 0x20, CHR 0xA0, CHR 0x0A, CHR 0x1C, CHR 0x85])
     ''table'' (\<lambda>c. Inr c)
     (registered_cell_required Cmd_table) (registered_cell_prohibited Cmd_table)
     = Inr (Call_args Map.empty)
   \<and> dispatch_handler Map.empty (Some ''  '') ''udf'' (\<lambda>c. Inr c)
     (registered_cell_required Cmd_udf) (registered_cell_prohibited Cmd_udf)
     = Inr (Call_args_cell Map.empty (Some ''  ''))
   \<and> dispatch_handler Map.empty None ''sample'' (\<lambda>c. Inr c)
     (registered_cell_required Cmd_sample) (registered_cell_prohibited Cmd_sample)
     = Inr (Call_args_cell Map.empty None)"
  using dispatch_handler_cell_rules
          [of False True "Some '' x ''" Map.empty "''table''" "\<lambda>c. Inr c"]
        dispatch_handler_cell_rules
          [of True False None Map.empty "''udf''" "\<lambda>c. Inr c"]
        dispatch_handler_cell_rules
          [of False True "Some [CHR 0x20, CHR 0xA0, CHR 0x0A, CHR 0x1C, CHR 0x85]" Map.empty
              "''table''" "\<lambda>c. Inr c"]
        dispatch_handler_cell_rules
          [of True False "Some ''  ''" Map.empty "''udf''" "\<lambda>c. Inr c"]
        dispatch_handler_cell_rules
          [of False False None Map.empty "''sample''" "\<lambda>c. Inr c"]
  by (simp add: cell_mode_of_def strip_def is_space_def)

subsection \<open>Page state\<close>

text \<open>
  C5. A count that is not negative is the total. A negative count (the table has no
  length) becomes the number of rows fetched when that is less than the page size, and
  stays as it is, negative, otherwise. The chart is \<open>table\<close> (one page) exactly when the
  total is between 0 and the page size, and \<open>paged_table\<close> in every other case. With a
  count of -1, 3 rows and 25 rows per page the total is 3 on one page; with a count of
  1000 and 25 rows of 25 per page the chart is paged.
\<close>

theorem page_state_total_and_chart:
  "(0 \<le> total_count \<longrightarrow> fst (page_state total_count rows rows_per_page) = total_count)
   \<and> (total_count < 0 \<and> int (length rows) < rows_per_page \<longrightarrow>
        fst (page_state total_count rows rows_per_page) = int (length rows))
   \<and> (total_count < 0 \<and> \<not> int (length rows) < rows_per_page \<longrightarrow>
        fst (page_state total_count rows rows_per_page) = total_count
        \<and> fst (page_state total_count rows rows_per_page) < 0)
   \<and> (snd (page_state total_count rows rows_per_page) = ''table'' \<longleftrightarrow>
        0 \<le> fst (page_state total_count rows rows_per_page)
        \<and> fst (page_state total_count rows rows_per_page) \<le> rows_per_page)
   \<and> (snd (page_state total_count rows rows_per_page) \<noteq> ''table'' \<longrightarrow>
        snd (page_state total_count rows rows_per_page) = ''paged_table'')
   \<and> page_state (-1) [r1, r2, r3] 25 = (3, ''table'')
   \<and> snd (page_state 1000 (replicate 25 r) 25) = ''paged_table''"
  by (simp add: page_state_def Let_def)

theorem page_state_total_and_chart_witness:
  "fst (page_state 7 [True, False] 25) = 7
   \<and> fst (page_state (-1) [True, False] 25) = 2
   \<and> fst (page_state (-1) [True, False] 2) = -1
   \<and> snd (page_state (-1) [True, False] 25) = ''table''
   \<and> snd (page_state (-1) [True, False] 2) = ''paged_table''"
proof -
  note a = page_state_total_and_chart
             [where total_count = 7 and rows = "[True, False]" and rows_per_page = 25
                and ?r1.0 = True and ?r2.0 = True and ?r3.0 = True and r = True]
  note b = page_state_total_and_chart
             [where total_count = "-1" and rows = "[True, False]" and rows_per_page = 25
                and ?r1.0 = True and ?r2.0 = True and ?r3.0 = True and r = True]
  note c = page_state_total_and_chart
             [where total_count = "-1" and rows = "[True, False]" and rows_per_page = 2
                and ?r1.0 = True and ?r2.0 = True and ?r3.0 = True and r = True]
  have "fst (page_state 7 [True, False] 25) = 7" using a by simp
  moreover have "fst (page_state (-1) [True, False] 25) = 2" using b by simp
  moreover have "fst (page_state (-1) [True, False] 2) = -1" using c by simp
  moreover have "snd (page_state (-1) [True, False] 25) = ''table''" using b by simp
  moreover have "snd (page_state (-1) [True, False] 2) = ''paged_table''" using c by simp
  ultimately show ?thesis by blast
qed

subsection \<open>The UDF declaration\<close>

lemma every_second_Cons: "every_second (x # xs) = x # every_second (drop (Suc 0) xs)"
  by (cases xs) simp_all

lemma zip_slices:
  "zip (every_second xs) (every_second (drop (Suc 0) xs)) = consecutive_pairs xs"
  by (induction xs rule: consecutive_pairs.induct) (simp_all add: every_second_Cons)

lemma match_spec_Some:
  assumes "match_spec s = Some (g, rest)"
  shows "s = ''{{'' @ g @ ''}}'' @ rest \<and> g \<noteq> [] \<and> CHR ''}'' \<notin> set g"
proof -
  let ?p = "\<lambda>c. c \<noteq> CHR ''}''"
  from assms have s: "take 2 s = ''{{''" and g: "g = takeWhile ?p (drop 2 s)"
    and ne: "g \<noteq> []" and r: "take 2 (dropWhile ?p (drop 2 s)) = ''}}''"
    and rest: "rest = drop 2 (dropWhile ?p (drop 2 s))"
    by (auto simp: match_spec_def startswith_def Let_def numeral_2_eq_2 split: if_splits)
  have "s = take 2 s @ drop 2 s" by simp
  also have "drop 2 s = takeWhile ?p (drop 2 s) @ dropWhile ?p (drop 2 s)" by simp
  also have "dropWhile ?p (drop 2 s) = take 2 (dropWhile ?p (drop 2 s)) @ rest"
    by (simp add: rest)
  finally have "s = ''{{'' @ g @ ''}}'' @ rest" using s g r by simp
  moreover have "CHR ''}'' \<notin> set g" unfolding g by (auto dest: set_takeWhileD)
  ultimately show ?thesis using ne by blast
qed

lemma findall_spec_groups:
  "g \<in> set (findall_spec s) \<Longrightarrow>
     g \<noteq> [] \<and> CHR ''}'' \<notin> set g \<and> (\<exists>pre post. s = pre @ ''{{'' @ g @ ''}}'' @ post)"
proof (induction s rule: findall_spec.induct)
  case 1
  then show ?case by simp
next
  case (2 c cs)
  show ?case
  proof (cases "match_spec (c # cs)")
    case None
    with 2 have "g \<noteq> [] \<and> CHR ''}'' \<notin> set g \<and> (\<exists>pre post. cs = pre @ ''{{'' @ g @ ''}}'' @ post)"
      by simp
    then obtain pre post where "g \<noteq> []" "CHR ''}'' \<notin> set g" "cs = pre @ ''{{'' @ g @ ''}}'' @ post"
      by blast
    then have "c # cs = (c # pre) @ ''{{'' @ g @ ''}}'' @ post" by simp
    with \<open>g \<noteq> []\<close> \<open>CHR ''}'' \<notin> set g\<close> show ?thesis by blast
  next
    case (Some x)
    obtain h rest where x: "x = (h, rest)" by (cases x)
    with Some have m: "match_spec (c # cs) = Some (h, rest)" by simp
    note ms = match_spec_Some [OF m]
    from 2(3) m have "g = h \<or> g \<in> set (findall_spec rest)" by simp
    then show ?thesis
    proof
      assume "g = h"
      with ms have "c # cs = [] @ ''{{'' @ g @ ''}}'' @ rest" by simp
      with ms \<open>g = h\<close> show ?thesis by blast
    next
      assume "g \<in> set (findall_spec rest)"
      with 2(2) [OF Some x [symmetric]]
      obtain pre post where gp: "g \<noteq> []" "CHR ''}'' \<notin> set g" "rest = pre @ ''{{'' @ g @ ''}}'' @ post"
        by blast
      with ms have "c # cs = (''{{'' @ h @ ''}}'' @ pre) @ ''{{'' @ g @ ''}}'' @ post" by simp
      with gp show ?thesis by blast
    qed
  qed
qed

lemma is_ident_start_char: "is_ident_start c \<Longrightarrow> is_ident_char c"
  by (simp add: is_ident_char_def)

lemma findall_ident_tokens:
  "t \<in> set (findall_ident s) \<Longrightarrow> t \<noteq> [] \<and> is_ident_start (hd t) \<and> (\<forall>c \<in> set t. is_ident_char c)"
proof (induction s rule: findall_ident.induct)
  case 1
  then show ?case by simp
next
  case (2 c cs)
  then show ?case
    by (auto simp: is_ident_start_char split: if_splits dest: set_takeWhileD)
qed

lemma udf_spec_example:
  "udf_spec ''{{a:int,b:string}}{{c:float}}''
     = Inr ([(''a'', ''int''), (''b'', ''string'')], [(''c'', ''float'')])"
  by (simp add: udf_spec_def match_spec_def startswith_def is_ident_start_def is_ident_char_def)

lemma match_spec_iff: "match_spec t = Some (g, rest) \<longleftrightarrow> bracket_match t g rest"
proof
  assume "match_spec t = Some (g, rest)"
  from match_spec_Some [OF this] show "bracket_match t g rest"
    unfolding bracket_match_def by blast
next
  assume m: "bracket_match t g rest"
  let ?p = "\<lambda>c. c \<noteq> CHR ''}''"
  from m have t: "t = ''{{'' @ g @ ''}}'' @ rest" and ne: "g \<noteq> []" and g: "\<forall>x \<in> set g. ?p x"
    by (auto simp: bracket_match_def)
  have d: "drop 2 t = g @ ''}}'' @ rest" by (simp add: t)
  have tw: "takeWhile ?p (g @ ''}}'' @ rest) = g" using g by (simp add: takeWhile_append2)
  have dw: "dropWhile ?p (g @ ''}}'' @ rest) = ''}}'' @ rest" using g by (simp add: dropWhile_append2)
  have st: "startswith t ''{{''" by (simp add: t startswith_def)
  show "match_spec t = Some (g, rest)"
    unfolding match_spec_def Let_def d tw dw using st ne by (simp add: startswith_def)
qed

lemma match_spec_None_iff: "match_spec t = None \<longleftrightarrow> (\<forall>g rest. \<not> bracket_match t g rest)"
  unfolding match_spec_iff [symmetric] by (cases "match_spec t") auto

lemma no_bracket_match_Cons:
  "no_bracket_match (Suc n) (c # cs) \<longleftrightarrow> match_spec (c # cs) = None \<and> no_bracket_match n cs"
proof -
  have "(\<forall>i < Suc n. P i) \<longleftrightarrow> P 0 \<and> (\<forall>i < n. P (Suc i))" for P
    by (auto simp: less_Suc_eq_0_disj)
  then show ?thesis by (simp add: no_bracket_match_def match_spec_None_iff)
qed

lemma bracket_groups_Cons:
  assumes "match_spec (c # cs) = None" and "bracket_groups cs gs"
  shows "bracket_groups (c # cs) gs"
  using assms(2)
proof (cases rule: bracket_groups.cases)
  case no_group
  with assms(1) have "no_bracket_match (length (c # cs)) (c # cs)"
    by (simp add: no_bracket_match_Cons)
  with no_group show ?thesis by (simp add: bracket_groups.no_group)
next
  case (next_group pre t g rest gs')
  from next_group(2) have 1: "c # cs = (c # pre) @ t" by simp
  from next_group(3) assms(1) have 2: "no_bracket_match (length (c # pre)) (c # cs)"
    by (simp add: no_bracket_match_Cons)
  from bracket_groups.next_group [OF 1 2 next_group(4) next_group(5)] next_group(1)
  show ?thesis by simp
qed

lemma bracket_groups_findall_spec: "bracket_groups s (findall_spec s)"
proof (induction s rule: findall_spec.induct)
  case 1
  show ?case by (simp add: bracket_groups.no_group no_bracket_match_def)
next
  case (2 c cs)
  show ?case
  proof (cases "match_spec (c # cs)")
    case None
    with 2(1) have "bracket_groups cs (findall_spec cs)" by simp
    with None have "bracket_groups (c # cs) (findall_spec cs)" by (rule bracket_groups_Cons)
    with None show ?thesis by simp
  next
    case (Some x)
    obtain g rest where x: "x = (g, rest)" by (cases x)
    from Some x have m: "bracket_match (c # cs) g rest" by (simp add: match_spec_iff)
    from 2(2) [OF Some x [symmetric]] have r: "bracket_groups rest (findall_spec rest)" .
    have "bracket_groups (c # cs) (g # findall_spec rest)"
      by (rule bracket_groups.next_group [where pre = "[]" and t = "c # cs", OF _ _ m r])
         (simp_all add: no_bracket_match_def)
    with Some x show ?thesis by simp
  qed
qed

lemma findall_spec_no_match:
  "no_bracket_match (length s) s \<Longrightarrow> findall_spec s = []"
  by (induction s) (simp_all add: no_bracket_match_Cons)

lemma findall_spec_skip:
  assumes "no_bracket_match (length pre) (pre @ t)" and "bracket_match t g rest"
  shows "findall_spec (pre @ t) = g # findall_spec rest"
  using assms(1)
proof (induction pre)
  case Nil
  from assms(2) have m: "match_spec t = Some (g, rest)" by (simp add: match_spec_iff)
  from assms(2) obtain c cs where "t = c # cs" by (cases t) (auto simp: bracket_match_def)
  with m show ?case by simp
next
  case (Cons c pre)
  then have "match_spec (c # pre @ t) = None" and "no_bracket_match (length pre) (pre @ t)"
    by (simp_all add: no_bracket_match_Cons)
  with Cons.IH show ?case by simp
qed

lemma bracket_groups_unique: "bracket_groups s gs \<Longrightarrow> gs = findall_spec s"
proof (induction rule: bracket_groups.induct)
  case (no_group s)
  then show ?case by (simp add: findall_spec_no_match)
next
  case (next_group s pre t g rest gs)
  then show ?case by (simp add: findall_spec_skip)
qed

lemma bracket_groups_iff: "bracket_groups s gs \<longleftrightarrow> gs = findall_spec s"
  using bracket_groups_findall_spec bracket_groups_unique by blast

lemma identifiers_Cons:
  assumes "\<not> is_ident_start c" and "identifiers cs ts"
  shows "identifiers (c # cs) ts"
  using assms(2)
proof (cases rule: identifiers.cases)
  case no_identifier
  with assms(1) show ?thesis by (simp add: identifiers.no_identifier)
next
  case (next_identifier pre c' w rest ts')
  from next_identifier(2) have 1: "c # cs = (c # pre) @ c' # w @ rest" by simp
  from next_identifier(3) assms(1) have 2: "\<forall>x \<in> set (c # pre). \<not> is_ident_start x" by simp
  from identifiers.next_identifier
         [OF 1 2 next_identifier(4) next_identifier(5) next_identifier(6) next_identifier(7)]
       next_identifier(1)
  show ?thesis by simp
qed

lemma identifiers_findall_ident: "identifiers s (findall_ident s)"
proof (induction s rule: findall_ident.induct)
  case 1
  show ?case by (simp add: identifiers.no_identifier)
next
  case (2 c cs)
  show ?case
  proof (cases "is_ident_start c")
    case False
    with 2 show ?thesis by (simp add: identifiers_Cons)
  next
    case True
    let ?w = "takeWhile is_ident_char cs" and ?rest = "dropWhile is_ident_char cs"
    from 2(1) [OF True] have r: "identifiers ?rest (findall_ident ?rest)" .
    have e: "?rest = [] \<or> \<not> is_ident_char (hd ?rest)"
      by (metis hd_dropWhile)
    have "identifiers (c # cs) ((c # ?w) # findall_ident ?rest)"
      by (rule identifiers.next_identifier [where pre = "[]" and rest = ?rest, OF _ _ True _ e r])
         (auto dest: set_takeWhileD)
    with True show ?thesis by simp
  qed
qed

lemma findall_ident_no_start:
  "\<forall>x \<in> set s. \<not> is_ident_start x \<Longrightarrow> findall_ident s = []"
  by (induction s) simp_all

lemma findall_ident_skip:
  assumes "\<forall>x \<in> set pre. \<not> is_ident_start x" and "is_ident_start c"
    and "\<forall>x \<in> set w. is_ident_char x" and "rest = [] \<or> \<not> is_ident_char (hd rest)"
  shows "findall_ident (pre @ c # w @ rest) = (c # w) # findall_ident rest"
  using assms(1)
proof (induction pre)
  case Nil
  have r: "takeWhile is_ident_char rest = []" "dropWhile is_ident_char rest = rest"
    using assms(4) by (cases rest; simp)+
  have "takeWhile is_ident_char (w @ rest) = w" "dropWhile is_ident_char (w @ rest) = rest"
    using assms(3) r by (simp_all add: takeWhile_append2 dropWhile_append2)
  with assms(2) show ?case by simp
next
  case (Cons a pre)
  then show ?case by simp
qed

lemma identifiers_unique: "identifiers s ts \<Longrightarrow> ts = findall_ident s"
proof (induction rule: identifiers.induct)
  case (no_identifier s)
  then show ?case by (simp add: findall_ident_no_start)
next
  case (next_identifier s pre c w rest ts)
  then show ?case by (simp add: findall_ident_skip)
qed

lemma identifiers_iff: "identifiers s ts \<longleftrightarrow> ts = findall_ident s"
  using identifiers_findall_ident identifiers_unique by blast

text \<open>
  C4. For a module name that is not empty, every text has exactly one list of bracket
  groups. With fewer than two groups \<^verbatim>\<open>_udf_cell\<close> raises the missing-declaration
  exception. Otherwise the first group and the second group each have exactly one list
  of identifiers; an odd number of them in the first group raises the invalid-input
  exception, an odd number in the second the invalid-output exception, and else the
  identifiers of the first group, taken two at a time, are the input fields of the UDF
  bound to the module name and those of the second group its output fields. The text
  \<open>{{a:int,b:string}}{{c:float}}\<close> under the name \<open>u\<close> gives the inputs \<open>(a,int), (b,string)\<close>
  and the output \<open>(c,float)\<close>.
\<close>

theorem udf_cell_field_lists:
  assumes "args ''module'' = Some (PStr name)" and "name \<noteq> []"
  shows "(\<exists>groups. bracket_groups js groups \<and> (\<forall>gs. bracket_groups js gs \<longrightarrow> gs = groups)
          \<and> (length groups < 2 \<longrightarrow>
                udf_cell args js ns = Inl (Exception udf_missing_spec_message))
          \<and> (2 \<le> length groups \<longrightarrow>
               (\<exists>ins outs.
                  identifiers (groups ! 0) ins \<and> (\<forall>ts. identifiers (groups ! 0) ts \<longrightarrow> ts = ins)
                  \<and> identifiers (groups ! 1) outs
                  \<and> (\<forall>ts. identifiers (groups ! 1) ts \<longrightarrow> ts = outs)
                  \<and> (odd (length ins) \<longrightarrow>
                        udf_cell args js ns = Inl (Exception udf_invalid_input_message))
                  \<and> (even (length ins) \<and> odd (length outs) \<longrightarrow>
                        udf_cell args js ns = Inl (Exception udf_invalid_output_message))
                  \<and> (even (length ins) \<and> even (length outs) \<longrightarrow>
                        udf_cell args js ns
                          = Inr (ns(name \<mapsto> PUDF (consecutive_pairs ins)
                                               (consecutive_pairs outs) name js))))))
       \<and> udf_cell [''module'' \<mapsto> PStr ''u''] ''{{a:int,b:string}}{{c:float}}'' ns
           = Inr (ns(''u'' \<mapsto> PUDF [(''a'', ''int''), (''b'', ''string'')] [(''c'', ''float'')]
                                   ''u'' ''{{a:int,b:string}}{{c:float}}''))"
proof -
  have ex: "udf_cell [''module'' \<mapsto> PStr ''u''] ''{{a:int,b:string}}{{c:float}}'' ns
           = Inr (ns(''u'' \<mapsto> PUDF [(''a'', ''int''), (''b'', ''string'')] [(''c'', ''float'')]
                                   ''u'' ''{{a:int,b:string}}{{c:float}}''))"
    by (simp add: udf_cell_def getitem_def udf_spec_example)
  have gen: "udf_cell args js ns =
       (case udf_spec js of Inl e \<Rightarrow> Inl e
        | Inr (inputs, outputs) \<Rightarrow> Inr (ns(name \<mapsto> PUDF inputs outputs name js)))"
    using assms by (simp add: udf_cell_def getitem_def split: sum.splits prod.splits)
  let ?groups = "findall_spec js"
  let ?ins = "findall_ident (?groups ! 0)" and ?outs = "findall_ident (?groups ! 1)"
  have a: "length ?groups < 2 \<longrightarrow>
             udf_cell args js ns = Inl (Exception udf_missing_spec_message)"
    by (simp add: gen udf_spec_def Let_def)
  have b: "2 \<le> length ?groups \<longrightarrow>
             (odd (length ?ins) \<longrightarrow>
                udf_cell args js ns = Inl (Exception udf_invalid_input_message))
           \<and> (even (length ?ins) \<and> odd (length ?outs) \<longrightarrow>
                udf_cell args js ns = Inl (Exception udf_invalid_output_message))
           \<and> (even (length ?ins) \<and> even (length ?outs) \<longrightarrow>
                udf_cell args js ns
                  = Inr (ns(name \<mapsto> PUDF (consecutive_pairs ?ins)
                                       (consecutive_pairs ?outs) name js)))"
    by (simp add: gen udf_spec_def Let_def zip_slices even_iff_mod_2_eq_zero)
  have "2 \<le> length ?groups \<longrightarrow>
               (\<exists>ins outs.
                  identifiers (?groups ! 0) ins \<and> (\<forall>ts. identifiers (?groups ! 0) ts \<longrightarrow> ts = ins)
                  \<and> identifiers (?groups ! 1) outs
                  \<and> (\<forall>ts. identifiers (?groups ! 1) ts \<longrightarrow> ts = outs)
                  \<and> (odd (length ins) \<longrightarrow>
                        udf_cell args js ns = Inl (Exception udf_invalid_input_message))
                  \<and> (even (length ins) \<and> odd (length outs) \<longrightarrow>
                        udf_cell args js ns = Inl (Exception udf_invalid_output_message))
                  \<and> (even (length ins) \<and> even (length outs) \<longrightarrow>
                        udf_cell args js ns
                          = Inr (ns(name \<mapsto> PUDF (consecutive_pairs ins)
                                               (consecutive_pairs outs) name js))))"
  proof
    assume "2 \<le> length ?groups"
    with b show "\<exists>ins outs.
                  identifiers (?groups ! 0) ins \<and> (\<forall>ts. identifiers (?groups ! 0) ts \<longrightarrow> ts = ins)
                  \<and> identifiers (?groups ! 1) outs
                  \<and> (\<forall>ts. identifiers (?groups ! 1) ts \<longrightarrow> ts = outs)
                  \<and> (odd (length ins) \<longrightarrow>
                        udf_cell args js ns = Inl (Exception udf_invalid_input_message))
                  \<and> (even (length ins) \<and> odd (length outs) \<longrightarrow>
                        udf_cell args js ns = Inl (Exception udf_invalid_output_message))
                  \<and> (even (length ins) \<and> even (length outs) \<longrightarrow>
                        udf_cell args js ns
                          = Inr (ns(name \<mapsto> PUDF (consecutive_pairs ins)
                                               (consecutive_pairs outs) name js)))"
      by (intro exI [of _ ?ins] exI [of _ ?outs]) (simp add: identifiers_iff)
  qed
  with a have "\<exists>groups. bracket_groups js groups \<and> (\<forall>gs. bracket_groups js gs \<longrightarrow> gs = groups)
          \<and> (length groups < 2 \<longrightarrow>
                udf_cell args js ns = Inl (Exception udf_missing_spec_message))
          \<and> (2 \<le> length groups \<longrightarrow>
               (\<exists>ins outs.
                  identifiers (groups ! 0) ins \<and> (\<forall>ts. identifiers (groups ! 0) ts \<longrightarrow> ts = ins)
                  \<and> identifiers (groups ! 1) outs
                  \<and> (\<forall>ts. identifiers (groups ! 1) ts \<longrightarrow> ts = outs)
                  \<and> (odd (length ins) \<longrightarrow>
                        udf_cell args js ns = Inl (Exception udf_invalid_input_message))
                  \<and> (even (length ins) \<and> odd (length outs) \<longrightarrow>
                        udf_cell args js ns = Inl (Exception udf_invalid_output_message))
                  \<and> (even (length ins) \<and> even (length outs) \<longrightarrow>
                        udf_cell args js ns
                          = Inr (ns(name \<mapsto> PUDF (consecutive_pairs ins)
                                               (consecutive_pairs outs) name js)))))"
    by (intro exI [of _ ?groups]) (simp add: bracket_groups_iff)
  with ex show ?thesis by blast
qed

theorem udf_cell_field_lists_witness:
  "[''module'' \<mapsto> PStr ''u''] ''module'' = Some (PStr ''u'') \<and> ''u'' \<noteq> []
   \<and> bracket_groups '' /** {{a:int}} */'' [''a:int'']
   \<and> udf_cell [''module'' \<mapsto> PStr ''u''] '' /** {{a:int}} */'' Map.empty
       = Inl (Exception udf_missing_spec_message)
   \<and> bracket_groups '' {{a:int,b}} {{c:float}}'' [''a:int,b'', ''c:float'']
   \<and> identifiers ''a:int,b'' [''a'', ''int'', ''b'']
   \<and> udf_cell [''module'' \<mapsto> PStr ''u''] '' {{a:int,b}} {{c:float}}'' Map.empty
       = Inl (Exception udf_invalid_input_message)
   \<and> bracket_groups '' {{a:int}} {{c:float}}'' [''a:int'', ''c:float'']
   \<and> identifiers ''a:int'' [''a'', ''int''] \<and> identifiers ''c:float'' [''c'', ''float'']
   \<and> udf_cell [''module'' \<mapsto> PStr ''u''] '' {{a:int}} {{c:float}}'' Map.empty
       = Inr [''u'' \<mapsto> PUDF [(''a'', ''int'')] [(''c'', ''float'')] ''u''
                           '' {{a:int}} {{c:float}}'']"
proof -
  let ?args = "[''module'' \<mapsto> PStr ''u'']"
  have m: "?args ''module'' = Some (PStr ''u'')" and n: "''u'' \<noteq> []"
    by simp_all
  note ev = match_spec_def startswith_def is_ident_start_def is_ident_char_def Let_def
  have g1: "bracket_groups '' /** {{a:int}} */'' [''a:int'']"
    and g2: "bracket_groups '' {{a:int,b}} {{c:float}}'' [''a:int,b'', ''c:float'']"
    and g3: "bracket_groups '' {{a:int}} {{c:float}}'' [''a:int'', ''c:float'']"
    by (simp_all add: bracket_groups_iff ev)
  have i1: "identifiers ''a:int,b'' [''a'', ''int'', ''b'']"
    and i2: "identifiers ''a:int'' [''a'', ''int'']"
    and i3: "identifiers ''c:float'' [''c'', ''float'']"
    by (simp_all add: identifiers_iff ev)
  have r1: "udf_cell ?args '' /** {{a:int}} */'' Map.empty
       = Inl (Exception udf_missing_spec_message)"
  proof -
    from udf_cell_field_lists [where args = ?args and name = "''u''"
                                  and js = "'' /** {{a:int}} */''" and ns = Map.empty, OF m n]
    obtain groups where u: "\<forall>gs. bracket_groups '' /** {{a:int}} */'' gs \<longrightarrow> gs = groups"
      and r: "length groups < 2 \<longrightarrow>
                udf_cell ?args '' /** {{a:int}} */'' Map.empty
                  = Inl (Exception udf_missing_spec_message)"
      by blast
    from u g1 have "groups = [''a:int'']" by blast
    with r show ?thesis by simp
  qed
  have r2: "udf_cell ?args '' {{a:int,b}} {{c:float}}'' Map.empty
       = Inl (Exception udf_invalid_input_message)"
  proof -
    let ?js = "'' {{a:int,b}} {{c:float}}''"
    from udf_cell_field_lists [where args = ?args and name = "''u''"
                                  and js = ?js and ns = Map.empty, OF m n]
    obtain groups where u: "\<forall>gs. bracket_groups ?js gs \<longrightarrow> gs = groups"
      and r: "2 \<le> length groups \<longrightarrow>
               (\<exists>ins. (\<forall>ts. identifiers (groups ! 0) ts \<longrightarrow> ts = ins)
                  \<and> (odd (length ins) \<longrightarrow>
                        udf_cell ?args ?js Map.empty = Inl (Exception udf_invalid_input_message)))"
      by blast
    from u g2 have g: "groups = [''a:int,b'', ''c:float'']" by blast
    with r obtain ins where ui: "\<forall>ts. identifiers ''a:int,b'' ts \<longrightarrow> ts = ins"
      and ri: "odd (length ins) \<longrightarrow>
                 udf_cell ?args ?js Map.empty = Inl (Exception udf_invalid_input_message)"
      by auto
    from ui i1 have "ins = [''a'', ''int'', ''b'']" by blast
    with ri show ?thesis by simp
  qed
  have r3: "udf_cell ?args '' {{a:int}} {{c:float}}'' Map.empty
       = Inr [''u'' \<mapsto> PUDF [(''a'', ''int'')] [(''c'', ''float'')] ''u''
                           '' {{a:int}} {{c:float}}'']"
  proof -
    let ?js = "'' {{a:int}} {{c:float}}''"
    from udf_cell_field_lists [where args = ?args and name = "''u''"
                                  and js = ?js and ns = Map.empty, OF m n]
    obtain groups where u: "\<forall>gs. bracket_groups ?js gs \<longrightarrow> gs = groups"
      and r: "2 \<le> length groups \<longrightarrow>
               (\<exists>ins outs. (\<forall>ts. identifiers (groups ! 0) ts \<longrightarrow> ts = ins)
                  \<and> (\<forall>ts. identifiers (groups ! 1) ts \<longrightarrow> ts = outs)
                  \<and> (even (length ins) \<and> even (length outs) \<longrightarrow>
                        udf_cell ?args ?js Map.empty
                          = Inr (Map.empty(''u'' \<mapsto> PUDF (consecutive_pairs ins)
                                               (consecutive_pairs outs) ''u'' ?js))))"
      by blast
    from u g3 have g: "groups = [''a:int'', ''c:float'']" by blast
    with r obtain ins outs where ui: "\<forall>ts. identifiers ''a:int'' ts \<longrightarrow> ts = ins"
      and uo: "\<forall>ts. identifiers ''c:float'' ts \<longrightarrow> ts = outs"
      and ri: "even (length ins) \<and> even (length outs) \<longrightarrow>
                        udf_cell ?args ?js Map.empty
                          = Inr (Map.empty(''u'' \<mapsto> PUDF (consecutive_pairs ins)
                                               (consecutive_pairs outs) ''u'' ?js))"
      by auto
    from ui i2 have "ins = [''a'', ''int'']" by blast
    moreover from uo i3 have "outs = [''c'', ''float'']" by blast
    ultimately show ?thesis using ri by simp
  qed
  from m n g1 g2 g3 i1 i2 i3 r1 r2 r3 show ?thesis by blast
qed

subsection \<open>The query argument, the pipeline and the table command\<close>

lemma function_calls_Some:
  "function_calls ns key = Some v \<longleftrightarrow> ns key = Some v \<and> isinstance v FunctionCall"
  by (auto simp: function_calls_def split: option.splits)

text \<open>
  C2. When the notebook lookup of the name given with \<^verbatim>\<open>--sql\<close> yields a query
  object, \<^verbatim>\<open>_get_query_argument\<close> returns that object, for every \<open>config\<close> and every
  \<open>env\<close>: the result is the one obtained with no config at all. In
  \<^verbatim>\<open>sample -c count -m random -p percent -q name\<close>, whatever config the body parses
  to, the query that is sampled is that object.
\<close>

theorem get_query_argument_bound_query:
  assumes "args ''sql'' = Some name" and "isinstance (get_item X ns name) Query"
  shows "get_query_argument X ns args config env = Inr (get_item X ns name)
       \<and> get_query_argument X ns args config env = get_query_argument X ns args PNone env
       \<and> (parse_config X cell ns = Inr config \<and> args ''count'' = Some count
            \<and> args ''method'' = Some (PStr ''random'') \<and> args ''percent'' = Some percent \<longrightarrow>
          sample_cell X ns args cell
            = and_then (new_Sampling X ''random'' [(''percent'', percent), (''count'', count)])
                (query_sample X (get_item X ns name)))"
proof -
  have q: "get_query_argument X ns args c e = Inr (get_item X ns name)" for c e
    using assms by (simp add: get_query_argument_def getitem_def and_then_def)
  show ?thesis
    by (simp add: q sample_cell_def sample_sampling_def getitem_def and_then_def)
qed

theorem get_query_argument_bound_query_witness:
  "[''sql'' \<mapsto> PStr ''myquery'', ''count'' \<mapsto> PInt 5, ''method'' \<mapsto> PStr ''random'',
    ''percent'' \<mapsto> PInt 10] ''sql'' = Some (PStr ''myquery'')
   \<and> isinstance (get_item example_collaborators [''myquery'' \<mapsto> PObj Query 7] (PStr ''myquery'')) Query
   \<and> parse_config example_collaborators (Some ''{n: 1}'') [''myquery'' \<mapsto> PObj Query 7]
       = Inr (PDict [(''n'', PInt 1)])
   \<and> get_query_argument example_collaborators [''myquery'' \<mapsto> PObj Query 7]
       [''sql'' \<mapsto> PStr ''myquery'', ''count'' \<mapsto> PInt 5, ''method'' \<mapsto> PStr ''random'',
        ''percent'' \<mapsto> PInt 10]
       (PDict [(''n'', PInt 1)]) [''myquery'' \<mapsto> PObj Query 7]
      = Inr (PObj Query 7)
   \<and> sample_cell example_collaborators [''myquery'' \<mapsto> PObj Query 7]
       [''sql'' \<mapsto> PStr ''myquery'', ''count'' \<mapsto> PInt 5, ''method'' \<mapsto> PStr ''random'',
        ''percent'' \<mapsto> PInt 10]
       (Some ''{n: 1}'')
      = Inr (PTuple [PObj Query 7,
               PDict [(''method'', PStr ''random''), (''percent'', PInt 10), (''count'', PInt 5)]])"
proof -
  let ?args = "[''sql'' \<mapsto> PStr ''myquery'', ''count'' \<mapsto> PInt 5, ''method'' \<mapsto> PStr ''random'',
    ''percent'' \<mapsto> PInt 10]"
  let ?ns = "[''myquery'' \<mapsto> PObj Query 7]"
  have a: "?args ''sql'' = Some (PStr ''myquery'')" by simp
  have b: "isinstance (get_item example_collaborators ?ns (PStr ''myquery'')) Query"
    by (simp add: example_collaborators_def lookup_item_def isinstance_def)
  have p: "parse_config example_collaborators (Some ''{n: 1}'') ?ns = Inr (PDict [(''n'', PInt 1)])"
    by (simp add: parse_config_def strip_def is_space_def example_collaborators_def
        replace_in_list_def)
  note t = get_query_argument_bound_query
             [where args = ?args and name = "PStr ''myquery''" and X = example_collaborators
                and ns = ?ns and config = "PDict [(''n'', PInt 1)]" and env = ?ns
                and cell = "Some ''{n: 1}''" and count = "PInt 5" and percent = "PInt 10", OF a b]
  have g: "get_item example_collaborators ?ns (PStr ''myquery'') = PObj Query 7"
    by (simp add: example_collaborators_def lookup_item_def)
  have s: "and_then (new_Sampling example_collaborators ''random''
              [(''percent'', PInt 10), (''count'', PInt 5)])
            (query_sample example_collaborators (PObj Query 7))
         = Inr (PTuple [PObj Query 7,
               PDict [(''method'', PStr ''random''), (''percent'', PInt 10), (''count'', PInt 5)]])"
    by (simp add: example_collaborators_def and_then_def)
  from t p show ?thesis using a b by (simp add: g s)
qed

text \<open>
  C10. With \<open>x\<close> bound to 5 in the notebook, which is not a UDF function call, the body
  \<open>a: $x\<close> of a pipeline run raises \<^verbatim>\<open>AttributeError\<close>, not the error that names
  the variable that cannot be expanded; and the sample command, which substitutes from
  the whole notebook environment, raises the same \<^verbatim>\<open>AttributeError\<close> on that body.
\<close>

theorem pipeline_cell_dollar_raises_AttributeError:
  "pipeline_cell example_collaborators [''x'' \<mapsto> PInt 5]
      [''action'' \<mapsto> PStr ''run'', ''sql'' \<mapsto> PStr ''q''] (Some ''a: $x'')
     = Inl (AttributeError ''startwith'')
   \<and> sample_cell example_collaborators [''x'' \<mapsto> PInt 5]
      [''action'' \<mapsto> PStr ''run'', ''sql'' \<mapsto> PStr ''q''] (Some ''a: $x'')
     = Inl (AttributeError ''startwith'')"
  by (simp add: pipeline_cell_def sample_cell_def parse_config_def strip_def is_space_def
      example_collaborators_def replace_in_list_def expand_var_def startswith_def
      str_has_method_def str_methods_def and_then_def getitem_def)

text \<open>
  C9. For arguments parsed by the flag schema of the table command, which declares
  \<^verbatim>\<open>--rows\<close> and \<^verbatim>\<open>--cols\<close> only, \<^verbatim>\<open>_table_line\<close> fails at its first
  statement, \<^verbatim>\<open>args['table']\<close>, with \<^verbatim>\<open>KeyError\<close>, the cache untouched; it never
  returns the rendered table.
\<close>

theorem table_line_KeyError:
  assumes "parsed_by table_schema_dests args"
  shows "table_line X ns cache args = (Inl (KeyError ''table''), cache)
       \<and> (\<forall>html. fst (table_line X ns cache args) \<noteq> Inr (new_HTML X html))"
proof -
  from assms have "''table'' \<notin> dom args"
    by (auto simp: parsed_by_def table_schema_dests_def)
  then have "args ''table'' = None" by blast
  then show ?thesis by (simp add: table_line_def getitem_def)
qed

theorem table_line_KeyError_witness:
  "parsed_by table_schema_dests [''rows'' \<mapsto> PInt 25, ''cols'' \<mapsto> PNone]
   \<and> table_line example_collaborators Map.empty table_cache_init
        [''rows'' \<mapsto> PInt 25, ''cols'' \<mapsto> PNone]
      = (Inl (KeyError ''table''), table_cache_init)"
proof -
  have p: "parsed_by table_schema_dests [''rows'' \<mapsto> PInt 25, ''cols'' \<mapsto> PNone]"
    by (simp add: parsed_by_def table_schema_dests_def)
  from table_line_KeyError [OF p] p show ?thesis by blast
qed

subsection \<open>The table cache\<close>

lemma names_lru_touch:
  "map fst (lru_touch name handle es) = name # removeAll name (map fst es)"
  by (induction es) (auto simp: lru_touch_def)

lemma length_lru_touch:
  assumes "name \<in> fst ` set es"
  shows "length (lru_touch name handle es) \<le> length es"
proof -
  from assms obtain e where "e \<in> set es" and "\<not> fst e \<noteq> name" by auto
  then have "length (filter (\<lambda>e. fst e \<noteq> name) es) < length es"
    by (rule length_filter_less)
  then show ?thesis by (simp add: lru_touch_def)
qed

lemma capacity_lru_get: "capacity (snd (lru_get c name)) = capacity c"
  by (simp add: lru_get_def split: option.splits)

lemma capacity_lru_put: "capacity (lru_put c name handle) = capacity c"
  by (simp add: lru_put_def)

lemma names_lru_get_hit:
  assumes "name \<in> set (cache_names c)"
  shows "\<exists>handle. fst (lru_get c name) = Some handle"
    and "cache_names (snd (lru_get c name)) = name # removeAll name (cache_names c)"
proof -
  from assms have "map_of (entries c) name \<noteq> None"
    by (simp add: map_of_eq_None_iff cache_names_def)
  then obtain handle where m: "map_of (entries c) name = Some handle" by blast
  then show "\<exists>handle. fst (lru_get c name) = Some handle" by (simp add: lru_get_def)
  from m show "cache_names (snd (lru_get c name)) = name # removeAll name (cache_names c)"
    by (simp add: lru_get_def cache_names_def names_lru_touch)
qed

lemma cache_inv_lru_get:
  assumes "cache_inv c"
  shows "cache_inv (snd (lru_get c name))"
proof (cases "map_of (entries c) name")
  case None
  with assms show ?thesis by (simp add: lru_get_def)
next
  case (Some handle)
  then have "map_of (entries c) name \<noteq> None" by simp
  then have "name \<in> fst ` set (entries c)" by (simp add: map_of_eq_None_iff)
  then have "length (lru_touch name handle (entries c)) \<le> length (entries c)"
    by (rule length_lru_touch)
  with assms Some show ?thesis
    by (simp add: lru_get_def cache_inv_def cache_names_def names_lru_touch distinct_removeAll)
qed

lemma names_lru_put_new:
  assumes "name \<notin> set (cache_names c)"
  shows "cache_names (lru_put c name handle)
         = name # (if length (entries c) < capacity c then cache_names c
                   else butlast (cache_names c))"
  using assms by (simp add: lru_put_def cache_names_def map_butlast)

lemma names_lru_put_old:
  assumes "name \<in> set (cache_names c)"
  shows "cache_names (lru_put c name handle) = name # removeAll name (cache_names c)"
  using assms by (simp add: lru_put_def cache_names_def names_lru_touch)

lemma cache_inv_lru_put:
  assumes "cache_inv c" and "0 < capacity c"
  shows "cache_inv (lru_put c name handle)"
proof (cases "name \<in> set (cache_names c)")
  case True
  then have "name \<in> fst ` set (entries c)" by (simp add: cache_names_def)
  then have "length (lru_touch name handle (entries c)) \<le> length (entries c)"
    by (rule length_lru_touch)
  moreover have "length (entries (lru_put c name handle))
                 = length (lru_touch name handle (entries c))"
    using \<open>name \<in> fst ` set (entries c)\<close> by (simp add: lru_put_def)
  ultimately show ?thesis
    using assms True
    by (simp add: cache_inv_def names_lru_put_old capacity_lru_put distinct_removeAll)
next
  case False
  have len: "length (entries (lru_put c name handle)) = length (cache_names (lru_put c name handle))"
    by (simp add: cache_names_def)
  have "name \<notin> set (butlast (cache_names c))" using False by (auto dest: in_set_butlastD)
  with assms False show ?thesis
    unfolding cache_inv_def len names_lru_put_new [OF False] capacity_lru_put
    by (auto simp: distinct_butlast cache_names_def)
qed

lemma cache_run_snoc: "cache_run (ops @ [x]) c = cache_step (cache_run ops c) x"
  by (simp add: cache_run_def)

lemma cache_run_inv:
  assumes "cache_inv c" and "0 < capacity c"
  shows "cache_inv (cache_run ops c) \<and> capacity (cache_run ops c) = capacity c"
proof (induction ops rule: rev_induct)
  case Nil
  with assms show ?case by (simp add: cache_run_def)
next
  case (snoc x ops)
  with assms show ?case
    by (cases x)
       (simp_all add: cache_run_snoc cache_inv_lru_get cache_inv_lru_put
          capacity_lru_get capacity_lru_put)
qed

lemma cache_inv_new: "cache_inv (new_LRUCache n)"
  by (simp add: cache_inv_def new_LRUCache_def cache_names_def)

lemma get_then_put_keeps:
  assumes inv: "cache_inv c" and cap: "2 \<le> capacity c" and k: "k \<in> set (cache_names c)"
  shows "k \<in> set (cache_names (lru_put (snd (lru_get c k)) name handle))"
proof -
  let ?c' = "snd (lru_get c k)"
  have n': "cache_names ?c' = k # removeAll k (cache_names c)"
    using k by (rule names_lru_get_hit)
  have cap': "capacity ?c' = capacity c" by (rule capacity_lru_get)
  show ?thesis
  proof (cases "name \<in> set (cache_names ?c')")
    case True
    then show ?thesis by (auto simp: names_lru_put_old n')
  next
    case False
    have l: "length (entries ?c') = length (cache_names ?c')" by (simp add: cache_names_def)
    show ?thesis
    proof (cases "length (entries ?c') < capacity ?c'")
      case True
      then show ?thesis using False by (simp add: names_lru_put_new n')
    next
      case False2: False
      with cap cap' l n' have "removeAll k (cache_names c) \<noteq> []" by auto
      then show ?thesis using False False2 by (simp add: names_lru_put_new n')
    qed
  qed
qed

lemma put_then_put_keeps:
  assumes inv: "cache_inv c" and cap: "2 \<le> capacity c"
  shows "k \<in> set (cache_names (lru_put (lru_put c k handle') name handle))"
proof -
  let ?c' = "lru_put c k handle'"
  have cap': "capacity ?c' = capacity c" by (rule capacity_lru_put)
  obtain rest where n': "cache_names ?c' = k # rest"
    by (cases "k \<in> set (cache_names c)") (simp_all add: names_lru_put_old names_lru_put_new)
  have l: "length (entries ?c') = length (cache_names ?c')" by (simp add: cache_names_def)
  show ?thesis
  proof (cases "name \<in> set (cache_names ?c')")
    case True
    then show ?thesis by (auto simp: names_lru_put_old n')
  next
    case False
    show ?thesis
    proof (cases "length (entries ?c') < capacity ?c'")
      case True
      then show ?thesis using False by (simp add: names_lru_put_new n')
    next
      case False2: False
      with cap cap' l n' have "rest \<noteq> []" by auto
      then show ?thesis using False False2 by (simp add: names_lru_put_new n')
    qed
  qed
qed

lemma remdups_snoc: "remdups (h @ [n]) = removeAll n (remdups h) @ [n]"
  by (induction h) auto

lemma rev_removeAll: "rev (removeAll n xs) = removeAll n (rev xs)"
  by (induction xs) auto

lemma recency_snoc: "rev (remdups (h @ [n])) = n # removeAll n (rev (remdups h))"
  by (simp add: remdups_snoc rev_removeAll)

lemma take_removeAll_absent:
  "n \<notin> set (take k M) \<Longrightarrow> take k (removeAll n M) = take k M"
proof (induction M arbitrary: k)
  case Nil
  show ?case by simp
next
  case (Cons a M)
  then show ?case by (cases k) auto
qed

lemma removeAll_take_present:
  "distinct M \<Longrightarrow> n \<in> set (take k M) \<Longrightarrow> removeAll n (take k M) = take (k - 1) (removeAll n M)"
proof (induction M arbitrary: k)
  case Nil
  then show ?case by simp
next
  case (Cons a M)
  from Cons.prems(2) obtain k' where k: "k = Suc k'" by (cases k) auto
  show ?case
  proof (cases "a = n")
    case True
    with Cons.prems(1) have "n \<notin> set M" by simp
    moreover from this have "n \<notin> set (take k' M)" by (auto dest: in_set_takeD)
    ultimately have "removeAll n M = M" "removeAll n (take k' M) = take k' M"
      by (simp_all add: removeAll_id)
    with True k show ?thesis by simp
  next
    case False
    with Cons.prems k have in': "n \<in> set (take k' M)" and d: "distinct M" by auto
    then obtain k'' where k': "k' = Suc k''" by (cases k') auto
    from Cons.IH [OF d in'] False k k' show ?thesis by simp
  qed
qed

lemma touch_take:
  assumes d: "distinct M" and cap: "0 < cap" and N: "N = take cap M"
  shows "(if n \<in> set N then n # removeAll n N
          else n # (if length N < cap then N else butlast N))
         = take cap (n # removeAll n M)"
proof -
  obtain cap' where c: "cap = Suc cap'" using cap by (cases cap) auto
  show ?thesis
  proof (cases "n \<in> set N")
    case True
    with removeAll_take_present [OF d, of n cap] N c show ?thesis by simp
  next
    case False
    show ?thesis
    proof (cases "length N < cap")
      case True
      with N have "N = M" by (simp add: min_def split: if_splits)
      with False True c show ?thesis by simp
    next
      case F2: False
      with N have le: "cap \<le> length M" by simp
      have "butlast N = take cap' M" using le N c by (simp add: butlast_take)
      moreover have "take cap (removeAll n M) = take cap M"
        using False N by (simp add: take_removeAll_absent)
      then have "take cap' (take cap (removeAll n M)) = take cap' (take cap M)" by simp
      then have "take cap' (removeAll n M) = take cap' M" by (simp add: c min_def)
      ultimately show ?thesis using False F2 c by simp
    qed
  qed
qed

lemma lru_get_miss:
  "name \<notin> set (cache_names c) \<Longrightarrow> fst (lru_get c name) = None \<and> snd (lru_get c name) = c"
proof -
  assume "name \<notin> set (cache_names c)"
  then have "map_of (entries c) name = None"
    by (simp add: map_of_eq_None_iff cache_names_def)
  then show ?thesis by (simp add: lru_get_def)
qed

lemma names_step:
  assumes cap: "0 < capacity c" and N: "cache_names c = take (capacity c) (rev (remdups h0))"
  shows "cache_names (cache_step c op)
         = take (capacity c) (rev (remdups (h0 @ touch_history c [op])))"
proof -
  let ?M = "rev (remdups h0)"
  have d: "distinct ?M" by simp
  note tt = touch_take [OF d cap N]
  show ?thesis
  proof (cases op)
    case (Get name)
    show ?thesis
    proof (cases "name \<in> set (cache_names c)")
      case True
      from names_lru_get_hit [OF True] tt [of name] True Get show ?thesis
        by (auto simp: recency_snoc)
    next
      case False
      with lru_get_miss [OF False] N Get show ?thesis by simp
    qed
  next
    case (Put name handle)
    show ?thesis
    proof (cases "name \<in> set (cache_names c)")
      case True
      with names_lru_put_old [OF True] tt [of name] Put show ?thesis
        by (simp add: recency_snoc)
    next
      case False
      have "length (entries c) = length (cache_names c)" by (simp add: cache_names_def)
      with names_lru_put_new [OF False] tt [of name] False Put show ?thesis
        by (simp add: recency_snoc)
    qed
  qed
qed

lemma capacity_cache_step: "capacity (cache_step c op) = capacity c"
  by (cases op) (simp_all add: capacity_lru_get capacity_lru_put)

lemma touch_history_single:
  "touch_history c (op # ops) = touch_history c [op] @ touch_history (cache_step c op) ops"
  by (cases op) simp_all

lemma cache_run_Cons: "cache_run (op # ops) c = cache_run ops (cache_step c op)"
  by (simp add: cache_run_def)

lemma cache_run_append: "cache_run (ops @ ops') c = cache_run ops' (cache_run ops c)"
  by (simp add: cache_run_def)

lemma names_cache_run:
  assumes "0 < capacity c" and "cache_names c = take (capacity c) (rev (remdups h0))"
  shows "cache_names (cache_run ops c)
         = take (capacity c) (rev (remdups (h0 @ touch_history c ops)))"
  using assms
proof (induction ops arbitrary: c h0)
  case Nil
  then show ?case by (simp add: cache_run_def)
next
  case (Cons op ops)
  have 1: "0 < capacity (cache_step c op)" using Cons.prems(1) by (simp add: capacity_cache_step)
  have 2: "cache_names (cache_step c op)
           = take (capacity (cache_step c op)) (rev (remdups (h0 @ touch_history c [op])))"
    using names_step [OF Cons.prems] by (simp add: capacity_cache_step)
  from Cons.IH [OF 1 2] show ?case
    by (simp add: cache_run_Cons capacity_cache_step touch_history_single [of c op ops])
qed

lemma remdups_split:
  "remdups h = A @ x # B \<Longrightarrow> \<exists>h1 h2. h = h1 @ x # h2 \<and> x \<notin> set h2 \<and> set h2 = set B"
proof (induction h arbitrary: A)
  case Nil
  then show ?case by simp
next
  case (Cons a h)
  show ?case
  proof (cases "a \<in> set h")
    case True
    with Cons.prems have "remdups h = A @ x # B" by simp
    from Cons.IH [OF this] obtain h1 h2 where "h = h1 @ x # h2" "x \<notin> set h2" "set h2 = set B"
      by blast
    then have "a # h = (a # h1) @ x # h2 \<and> x \<notin> set h2 \<and> set h2 = set B" by simp
    then show ?thesis by blast
  next
    case False
    with Cons.prems have e: "a # remdups h = A @ x # B" by simp
    show ?thesis
    proof (cases A)
      case Nil
      with e have "x = a" "B = remdups h" by simp_all
      with False have "a # h = [] @ x # h \<and> x \<notin> set h \<and> set h = set B" by simp
      then show ?thesis by blast
    next
      case (Cons a' A')
      with e have "remdups h = A' @ x # B" by simp
      from Cons.IH [OF this] obtain h1 h2 where "h = h1 @ x # h2" "x \<notin> set h2" "set h2 = set B"
        by blast
      then have "a # h = (a # h1) @ x # h2 \<and> x \<notin> set h2 \<and> set h2 = set B" by simp
      then show ?thesis by blast
    qed
  qed
qed

lemma last_is_least_recent:
  assumes N: "N = take cap (rev (remdups h))" and ne: "N \<noteq> []"
    and y: "y \<in> set N" and yx: "y \<noteq> last N"
  shows "touched_since h (last N) y"
proof -
  let ?M = "rev (remdups h)"
  have "?M = N @ drop cap ?M" by (simp add: N)
  then have "remdups h = rev (drop cap ?M) @ rev N" by (metis rev_append rev_rev_ident)
  moreover have "rev N = last N # rev (butlast N)" using ne by (metis append_butlast_last_id rev.simps(2) rev_append rev_rev_ident append_Cons append_Nil rev_singleton_conv)
  ultimately have "remdups h = rev (drop cap ?M) @ last N # rev (butlast N)" by simp
  from remdups_split [OF this] obtain h1 h2
    where h: "h = h1 @ last N # h2" "last N \<notin> set h2" "set h2 = set (rev (butlast N))"
    by blast
  from y yx ne have "y \<in> set (butlast N)"
    by (metis append_butlast_last_id insert_iff list.set(2) rotate1.simps(2) set_rotate1)
  with h show ?thesis by (auto simp: touched_since_def)
qed

lemma get_returns_map_of: "fst (lru_get c name) = map_of (entries c) name"
  by (simp add: lru_get_def split: option.splits)

lemma map_of_lru_touch:
  "map_of (lru_touch name handle es) k = (if k = name then Some handle else map_of es k)"
  by (induction es) (auto simp: lru_touch_def)

lemma map_of_butlast:
  assumes "k \<in> fst ` set (butlast es)"
  shows "map_of (butlast es) k = map_of es k"
proof (cases "es = []")
  case True
  then show ?thesis by simp
next
  case False
  then have "es = butlast es @ [last es]" by simp
  then have "map_of es k = map_of (butlast es @ [last es]) k" by simp
  also have "\<dots> = (map_of [last es] ++ map_of (butlast es)) k" by (simp only: map_of_append)
  also have "\<dots> = map_of (butlast es) k"
    using assms by (auto simp: map_add_def map_of_eq_None_iff split: option.splits)
  finally show ?thesis by simp
qed

lemma get_after_get:
  "fst (lru_get (snd (lru_get c k)) k') = fst (lru_get c k')"
  by (auto simp: get_returns_map_of lru_get_def map_of_lru_touch split: option.splits)

lemma get_after_put:
  assumes "k' \<in> set (cache_names (lru_put c k handle))"
  shows "fst (lru_get (lru_put c k handle) k') = (if k' = k then Some handle else fst (lru_get c k'))"
proof (cases "k \<in> fst ` set (entries c)")
  case True
  then show ?thesis by (simp add: get_returns_map_of lru_put_def map_of_lru_touch)
next
  case False
  show ?thesis
  proof (cases "length (entries c) < capacity c")
    case True
    with False show ?thesis by (simp add: get_returns_map_of lru_put_def)
  next
    case F2: False
    show ?thesis
    proof (cases "k' = k")
      case True
      with False F2 show ?thesis by (simp add: get_returns_map_of lru_put_def)
    next
      case F3: False
      with assms False F2 have "k' \<in> fst ` set (butlast (entries c))"
        by (auto simp: lru_put_def cache_names_def)
      then have "map_of (butlast (entries c)) k' = map_of (entries c) k'" by (rule map_of_butlast)
      with False F2 F3 show ?thesis by (simp add: get_returns_map_of lru_put_def)
    qed
  qed
qed

lemma get_table_cache:
  "\<exists>ops'. snd (get_table X ns c name) = cache_run ops' c"
proof -
  have 0: "c = cache_run [] c" by (simp add: cache_run_def)
  have 1: "snd (lru_get c name) = cache_run [Get name] c" by (simp add: cache_run_def)
  have 2: "lru_put (snd (lru_get c name)) name table = cache_run [Get name, Put name table] c"
    for table by (simp add: cache_run_def)
  show ?thesis
  proof (cases "isinstance (get_item X ns name) Table")
    case True
    then have "snd (get_table X ns c name) = c" by (simp add: get_table_def)
    with 0 show ?thesis by metis
  next
    case False
    obtain r c' where g: "lru_get c name = (r, c')" by (cases "lru_get c name")
    then have c': "c' = snd (lru_get c name)" by simp
    from False g have
      "snd (get_table X ns c name) = c' \<or> (\<exists>table. snd (get_table X ns c name) = lru_put c' name table)"
      by (auto simp: get_table_def Let_def split: option.splits sum.splits bool.splits)
    with c' 1 2 show ?thesis by metis
  qed
qed

text \<open>
  C6. After any sequence of \<open>get\<close> and \<open>put\<close> operations on the empty cache of capacity
  10, with \<open>h\<close> the history of the touches: the cache holds at most 10 entries, under
  distinct names, and its names are the 10 most recently touched names of \<open>h\<close>, the most
  recent first. A \<open>put\<close> of a new name into the full cache removes exactly one entry,
  the last one, and every other cached name was touched after the last touch of that
  entry; the others keep their order. A \<open>get\<close> of a cached name \<open>k\<close> returns a handle
  and moves \<open>k\<close> to the front, so that \<open>k\<close> is still cached after the next \<open>put\<close>,
  whatever its name; a \<open>get\<close> of any other name is a miss and changes nothing, and no
  \<open>get\<close> changes a handle. A \<open>put\<close> of \<open>k\<close> moves or inserts \<open>k\<close> at the front and
  leaves the order of the others, so that \<open>k\<close> is still cached after the next \<open>put\<close>; it
  sets the handle of \<open>k\<close> and changes no other handle. The cache after a call of
  \<^verbatim>\<open>_get_table\<close> is again the result of a sequence of \<open>get\<close> and \<open>put\<close> operations on
  the empty cache.
\<close>

theorem lru_cache_capacity_and_recency:
  fixes ops :: "(pyval, pyval) cache_op list"
  defines "c \<equiv> cache_run ops table_cache_init"
  defines "h \<equiv> touch_history table_cache_init ops"
  shows "length (entries c) \<le> 10 \<and> distinct (cache_names c)
       \<and> cache_names c = take 10 (rev (remdups h))
       \<and> (length (entries c) = 10 \<and> name \<notin> set (cache_names c) \<longrightarrow>
            cache_names (lru_put c name handle) = name # butlast (cache_names c)
            \<and> set (cache_names c) - set (cache_names (lru_put c name handle))
                = {last (cache_names c)}
            \<and> (\<forall>y \<in> set (cache_names c). y \<noteq> last (cache_names c) \<longrightarrow>
                  touched_since h (last (cache_names c)) y))
       \<and> (k \<in> set (cache_names c) \<longrightarrow>
            (\<exists>v. fst (lru_get c k) = Some v)
            \<and> cache_names (snd (lru_get c k)) = k # removeAll k (cache_names c)
            \<and> k \<in> set (cache_names (lru_put (snd (lru_get c k)) name handle)))
       \<and> (k \<notin> set (cache_names c) \<longrightarrow> fst (lru_get c k) = None \<and> snd (lru_get c k) = c)
       \<and> fst (lru_get (snd (lru_get c k)) k') = fst (lru_get c k')
       \<and> cache_names (lru_put c k handle') = take 10 (k # removeAll k (cache_names c))
       \<and> hd (cache_names (lru_put c k handle')) = k
       \<and> (k' \<in> set (cache_names (lru_put c k handle')) \<longrightarrow>
            fst (lru_get (lru_put c k handle') k')
              = (if k' = k then Some handle' else fst (lru_get c k')))
       \<and> k \<in> set (cache_names (lru_put (lru_put c k handle') name handle))
       \<and> (\<exists>ops'. snd (get_table X ns c name) = cache_run (ops @ ops') table_cache_init)"
proof -
  let ?c0 = "table_cache_init :: (pyval, pyval) lru_cache"
  have cap0: "capacity ?c0 = 10" and n0: "cache_names ?c0 = []"
    by (simp_all add: table_cache_init_def new_LRUCache_def cache_names_def)
  have "cache_inv c \<and> capacity c = capacity ?c0"
    unfolding c_def
    by (rule cache_run_inv)
       (simp_all add: cache_inv_def cache_names_def table_cache_init_def new_LRUCache_def)
  then have inv: "cache_inv c" and cap: "capacity c = 10" by (simp_all add: cap0)
  have 1: "length (entries c) \<le> 10 \<and> distinct (cache_names c)"
    using inv cap by (simp add: cache_inv_def)
  have "cache_names c = take (capacity ?c0) (rev (remdups ([] @ touch_history ?c0 ops)))"
    unfolding c_def by (rule names_cache_run) (simp_all add: cap0 n0)
  then have A: "cache_names c = take 10 (rev (remdups h))" by (simp add: cap0 h_def)
  have len: "length (entries c) = length (cache_names c)" by (simp add: cache_names_def)
  have 2: "cache_names (lru_put c name handle) = name # butlast (cache_names c)
            \<and> set (cache_names c) - set (cache_names (lru_put c name handle))
                = {last (cache_names c)}
            \<and> (\<forall>y \<in> set (cache_names c). y \<noteq> last (cache_names c) \<longrightarrow>
                  touched_since h (last (cache_names c)) y)"
    if full: "length (entries c) = 10" and new: "name \<notin> set (cache_names c)"
  proof -
    have n: "cache_names (lru_put c name handle) = name # butlast (cache_names c)"
      using full cap new by (simp add: names_lru_put_new)
    have ne: "cache_names c \<noteq> []" using full by (auto simp: cache_names_def)
    then have sp: "cache_names c = butlast (cache_names c) @ [last (cache_names c)]" by simp
    with 1 have "distinct (butlast (cache_names c) @ [last (cache_names c)])" by simp
    then have "last (cache_names c) \<notin> set (butlast (cache_names c))" by simp
    moreover have "set (cache_names c) = set (butlast (cache_names c)) \<union> {last (cache_names c)}"
    proof -
      have "set (cache_names c) = set (butlast (cache_names c) @ [last (cache_names c)])"
        using sp by simp
      then show ?thesis by simp
    qed
    ultimately have "set (cache_names c) - set (cache_names (lru_put c name handle))
                = {last (cache_names c)}"
      using new ne unfolding n by auto
    moreover have "\<forall>y \<in> set (cache_names c). y \<noteq> last (cache_names c) \<longrightarrow>
                  touched_since h (last (cache_names c)) y"
      by (intro ballI impI) (rule last_is_least_recent [OF A ne])
    ultimately show ?thesis using n by blast
  qed
  have 3: "(\<exists>v. fst (lru_get c k) = Some v)
            \<and> cache_names (snd (lru_get c k)) = k # removeAll k (cache_names c)
            \<and> k \<in> set (cache_names (lru_put (snd (lru_get c k)) name handle))"
    if "k \<in> set (cache_names c)"
    using that inv cap names_lru_get_hit [OF that] get_then_put_keeps [OF inv _ that]
    by simp
  have 4: "k \<notin> set (cache_names c) \<longrightarrow> fst (lru_get c k) = None \<and> snd (lru_get c k) = c"
    using lru_get_miss [of k c] by simp
  have 5: "fst (lru_get (snd (lru_get c k)) k') = fst (lru_get c k')" by (rule get_after_get)
  have 6: "cache_names (lru_put c k handle') = take 10 (k # removeAll k (cache_names c))"
  proof (cases "k \<in> set (cache_names c)")
    case True
    have "length (removeAll k (cache_names c)) < length (cache_names c)"
      using True by (simp add: length_removeAll_less)
    with 1 len have "length (k # removeAll k (cache_names c)) \<le> 10" by simp
    with True show ?thesis by (simp add: names_lru_put_old)
  next
    case False
    then have r: "removeAll k (cache_names c) = cache_names c" by (simp add: removeAll_id)
    show ?thesis
    proof (cases "length (entries c) < capacity c")
      case True
      with False cap len show ?thesis by (simp add: names_lru_put_new r)
    next
      case F2: False
      with 1 cap len have l: "length (cache_names c) = 10" by simp
      then have "butlast (cache_names c) = take 9 (cache_names c)"
        by (simp add: butlast_conv_take)
      with False F2 show ?thesis by (simp add: names_lru_put_new r)
    qed
  qed
  then have 7: "hd (cache_names (lru_put c k handle')) = k" by simp
  have 8: "k' \<in> set (cache_names (lru_put c k handle')) \<longrightarrow>
            fst (lru_get (lru_put c k handle') k')
              = (if k' = k then Some handle' else fst (lru_get c k'))"
    using get_after_put [of k' c k handle'] by simp
  have 9: "k \<in> set (cache_names (lru_put (lru_put c k handle') name handle))"
    using inv cap by (intro put_then_put_keeps) simp_all
  from get_table_cache obtain ops' where "snd (get_table X ns c name) = cache_run ops' c"
    by blast
  then have "snd (get_table X ns c name) = cache_run (ops @ ops') table_cache_init"
    by (simp add: c_def cache_run_append)
  then have 10: "\<exists>ops'. snd (get_table X ns c name) = cache_run (ops @ ops') table_cache_init"
    by blast
  from 1 have bound: "length (entries c) \<le> 10" and dist: "distinct (cache_names c)"
    by simp_all
  have c2: "length (entries c) = 10 \<and> name \<notin> set (cache_names c) \<longrightarrow>
            cache_names (lru_put c name handle) = name # butlast (cache_names c)
            \<and> set (cache_names c) - set (cache_names (lru_put c name handle))
                = {last (cache_names c)}
            \<and> (\<forall>y \<in> set (cache_names c). y \<noteq> last (cache_names c) \<longrightarrow>
                  touched_since h (last (cache_names c)) y)"
    by (intro impI, elim conjE) (rule 2)
  have c3: "k \<in> set (cache_names c) \<longrightarrow>
            (\<exists>v. fst (lru_get c k) = Some v)
            \<and> cache_names (snd (lru_get c k)) = k # removeAll k (cache_names c)
            \<and> k \<in> set (cache_names (lru_put (snd (lru_get c k)) name handle))"
    by (intro impI) (rule 3)
  show ?thesis by (intro conjI; fact)
qed

theorem lru_cache_capacity_and_recency_witness:
  "cache_names (cache_run
       [Put (PInt 1) PNone, Put (PInt 2) PNone, Put (PInt 3) PNone, Put (PInt 4) PNone,
        Put (PInt 5) PNone, Put (PInt 6) PNone, Put (PInt 7) PNone, Put (PInt 8) PNone,
        Put (PInt 9) PNone, Put (PInt 10) PNone, Put (PInt 10) (PInt 0)] table_cache_init)
      = [PInt 10, PInt 9, PInt 8, PInt 7, PInt 6, PInt 5, PInt 4, PInt 3, PInt 2, PInt 1]
   \<and> cache_names (lru_put (cache_run
       [Put (PInt 1) PNone, Put (PInt 2) PNone, Put (PInt 3) PNone, Put (PInt 4) PNone,
        Put (PInt 5) PNone, Put (PInt 6) PNone, Put (PInt 7) PNone, Put (PInt 8) PNone,
        Put (PInt 9) PNone, Put (PInt 10) PNone, Put (PInt 10) (PInt 0)] table_cache_init)
        (PInt 11) PNone)
      = [PInt 11, PInt 10, PInt 9, PInt 8, PInt 7, PInt 6, PInt 5, PInt 4, PInt 3, PInt 2]
   \<and> touched_since (touch_history table_cache_init
       [Put (PInt 1) PNone, Put (PInt 2) PNone, Put (PInt 3) PNone, Put (PInt 4) PNone,
        Put (PInt 5) PNone, Put (PInt 6) PNone, Put (PInt 7) PNone, Put (PInt 8) PNone,
        Put (PInt 9) PNone, Put (PInt 10) PNone, Put (PInt 10) (PInt 0)])
       (PInt 1) (PInt 2)
   \<and> cache_names (snd (lru_get (cache_run
       [Put (PInt 1) PNone, Put (PInt 2) PNone, Put (PInt 3) PNone, Put (PInt 4) PNone,
        Put (PInt 5) PNone, Put (PInt 6) PNone, Put (PInt 7) PNone, Put (PInt 8) PNone,
        Put (PInt 9) PNone, Put (PInt 10) PNone, Put (PInt 10) (PInt 0)] table_cache_init)
        (PInt 1)))
      = [PInt 1, PInt 10, PInt 9, PInt 8, PInt 7, PInt 6, PInt 5, PInt 4, PInt 3, PInt 2]
   \<and> PInt 1 \<in> set (cache_names (lru_put (snd (lru_get (cache_run
       [Put (PInt 1) PNone, Put (PInt 2) PNone, Put (PInt 3) PNone, Put (PInt 4) PNone,
        Put (PInt 5) PNone, Put (PInt 6) PNone, Put (PInt 7) PNone, Put (PInt 8) PNone,
        Put (PInt 9) PNone, Put (PInt 10) PNone, Put (PInt 10) (PInt 0)] table_cache_init)
        (PInt 1))) (PInt 11) PNone))"
proof -
  let ?ops = "[Put (PInt 1) PNone, Put (PInt 2) PNone, Put (PInt 3) PNone, Put (PInt 4) PNone,
        Put (PInt 5) PNone, Put (PInt 6) PNone, Put (PInt 7) PNone, Put (PInt 8) PNone,
        Put (PInt 9) PNone, Put (PInt 10) PNone, Put (PInt 10) (PInt 0)]"
  let ?c = "cache_run ?ops table_cache_init"
  let ?h = "touch_history table_cache_init ?ops"
  have ev: "?c = \<lparr>capacity = 10,
               entries = [(PInt 10, PInt 0), (PInt 9, PNone), (PInt 8, PNone), (PInt 7, PNone),
                          (PInt 6, PNone), (PInt 5, PNone), (PInt 4, PNone), (PInt 3, PNone),
                          (PInt 2, PNone), (PInt 1, PNone)]\<rparr>"
    by (simp add: cache_run_def table_cache_init_def new_LRUCache_def lru_put_def lru_touch_def)
  have n: "cache_names ?c
      = [PInt 10, PInt 9, PInt 8, PInt 7, PInt 6, PInt 5, PInt 4, PInt 3, PInt 2, PInt 1]"
    unfolding ev by (simp add: cache_names_def)
  have l: "length (entries ?c) = 10" unfolding ev by simp
  note t = lru_cache_capacity_and_recency
             [where ops = ?ops and name = "PInt 11" and handle = PNone and k = "PInt 1"
                and handle' = PNone and k' = "PInt 1" and X = example_collaborators
                and ns = Map.empty]
  have t2: "length (entries ?c) = 10 \<and> PInt 11 \<notin> set (cache_names ?c) \<longrightarrow>
            cache_names (lru_put ?c (PInt 11) PNone) = PInt 11 # butlast (cache_names ?c)
            \<and> set (cache_names ?c) - set (cache_names (lru_put ?c (PInt 11) PNone))
                = {last (cache_names ?c)}
            \<and> (\<forall>y \<in> set (cache_names ?c). y \<noteq> last (cache_names ?c) \<longrightarrow>
                  touched_since ?h (last (cache_names ?c)) y)"
    by (rule t [THEN conjunct2, THEN conjunct2, THEN conjunct2, THEN conjunct1])
  have t3: "PInt 1 \<in> set (cache_names ?c) \<longrightarrow>
            (\<exists>v. fst (lru_get ?c (PInt 1)) = Some v)
            \<and> cache_names (snd (lru_get ?c (PInt 1))) = PInt 1 # removeAll (PInt 1) (cache_names ?c)
            \<and> PInt 1 \<in> set (cache_names (lru_put (snd (lru_get ?c (PInt 1))) (PInt 11) PNone))"
    by (rule t [THEN conjunct2, THEN conjunct2, THEN conjunct2, THEN conjunct2,
               THEN conjunct1])
  have new: "PInt 11 \<notin> set (cache_names ?c)" unfolding n by simp
  have old: "PInt 1 \<in> set (cache_names ?c)" unfolding n by simp
  from t2 l new have a: "cache_names (lru_put ?c (PInt 11) PNone) = PInt 11 # butlast (cache_names ?c)"
    and b: "\<forall>y \<in> set (cache_names ?c). y \<noteq> last (cache_names ?c) \<longrightarrow>
                  touched_since ?h (last (cache_names ?c)) y"
    by simp_all
  from b have b': "touched_since ?h (PInt 1) (PInt 2)" unfolding n by simp
  from t3 old have c: "cache_names (snd (lru_get ?c (PInt 1))) = PInt 1 # removeAll (PInt 1) (cache_names ?c)"
    and d: "PInt 1 \<in> set (cache_names (lru_put (snd (lru_get ?c (PInt 1))) (PInt 11) PNone))"
    by simp_all
  from a have a': "cache_names (lru_put ?c (PInt 11) PNone)
      = [PInt 11, PInt 10, PInt 9, PInt 8, PInt 7, PInt 6, PInt 5, PInt 4, PInt 3, PInt 2]"
    unfolding n by simp
  from c have c': "cache_names (snd (lru_get ?c (PInt 1)))
      = [PInt 1, PInt 10, PInt 9, PInt 8, PInt 7, PInt 6, PInt 5, PInt 4, PInt 3, PInt 2]"
    unfolding n by simp
  show ?thesis by (intro conjI) (rule n a' b' c' d)+
qed

subsection \<open>Extract and load\<close>




lemma job_outcome_not_data: "\<not> carries_data (job_outcome X what job)"
  by (simp add: job_outcome_def carries_data_def)




end
